theory Spec2Isabelle
  imports Complex_Main
begin

section \<open>Characters and their classification\<close>

text \<open>
  A Python \<open>str\<close> of length one is modelled by its code point. The typed buffer and the
  expected stream are lists of such characters.

  \<open>str.isspace\<close> and \<open>str.isalnum\<close> are decided by the Unicode tables of the Python
  runtime, which are not part of the program. They are taken as a parameter: every
  function that classifies a character receives the tables as a \<open>ctype\<close>, and every
  general theorem holds for all tables. \<open>ascii\<close> gives the two tables on the code
  points below 128, where they are fixed; it is used to run the program on ASCII text.
\<close>

type_synonym pychar = nat

record ctype =
  isspace :: "pychar \<Rightarrow> bool"
  isalnum :: "pychar \<Rightarrow> bool"

definition ascii_isspace :: "pychar \<Rightarrow> bool" where
  "ascii_isspace c = (c = 32 \<or> (9 \<le> c \<and> c \<le> 13) \<or> (28 \<le> c \<and> c \<le> 31))"

definition ascii_isalnum :: "pychar \<Rightarrow> bool" where
  "ascii_isalnum c = ((48 \<le> c \<and> c \<le> 57) \<or> (65 \<le> c \<and> c \<le> 90) \<or> (97 \<le> c \<and> c \<le> 122))"

definition ascii :: ctype where
  "ascii = \<lparr>isspace = ascii_isspace, isalnum = ascii_isalnum\<rparr>"

definition codes :: "string \<Rightarrow> pychar list" where
  "codes s = map of_char s"

definition NEWLINE :: pychar where
  "NEWLINE = 10"

section \<open>Configuration\<close>

definition BASE_POINT_FACTOR :: real where
  "BASE_POINT_FACTOR = 10"

definition MULTIPLIER_START :: real where
  "MULTIPLIER_START = 5 / 10"

definition MULTIPLIER_STEP :: real where
  "MULTIPLIER_STEP = 1 / 10"

definition MULTIPLIER_MAX :: real where
  "MULTIPLIER_MAX = 5"

definition SAVE_TMP_SUFFIX :: string where
  "SAVE_TMP_SUFFIX = ''.tmp_save''"

section \<open>Session state\<close>

text \<open>
  The local variables of \<open>main_curses\<close> that the keystroke branches read and write,
  together with the module-level list \<open>entered_buffer\<close>, which is threaded through
  explicitly. \<open>score\<close> and \<open>multiplier\<close> are Python floats; they are modelled by real
  numbers, so rounding of the float operations is not represented. \<open>position\<close> is a
  natural number: the program only ever produces positions that are at least 0, and
  \<open>max(0, position - n)\<close> is then truncated subtraction. \<open>start_time\<close> is \<open>None\<close> until
  the first key arrives.
\<close>

datatype pyerror = IndexError | AttributeError

record session =
  position :: nat
  entered_buffer :: "pychar list"
  score :: real
  streak :: int
  multiplier :: real
  start_time :: "real option"

section \<open>Smart delete\<close>

definition is_word_char :: "ctype \<Rightarrow> pychar \<Rightarrow> bool" where
  "is_word_char T ch = (isalnum T ch \<or> ch = 95)"

text \<open>
  One loop \<open>while buffer and P(buffer[-1]): buffer.pop(); removed += 1\<close>, returning the
  buffer and the counter it leaves.
\<close>

function pop_while :: "(pychar \<Rightarrow> bool) \<Rightarrow> pychar list \<Rightarrow> nat \<Rightarrow> pychar list \<times> nat" where
  "pop_while P buffer removed =
     (if buffer \<noteq> [] \<and> P (last buffer)
      then pop_while P (butlast buffer) (removed + 1)
      else (buffer, removed))"
  by pat_completeness auto
termination
  by (relation "measure (\<lambda>(P, buffer, removed). length buffer)") auto

declare pop_while.simps [simp del]

definition smart_delete_prev_word_buffer :: "ctype \<Rightarrow> pychar list \<Rightarrow> pychar list \<times> nat" where
  "smart_delete_prev_word_buffer T buffer =
     (if buffer = [] then (buffer, 0)
      else
        let (b1, r1) = pop_while (isspace T) buffer 0 in
        if b1 = [] then (b1, r1)
        else if is_word_char T (last b1) then pop_while (is_word_char T) b1 r1
        else
          let (b2, r2) = pop_while (\<lambda>c. \<not> is_word_char T c \<and> \<not> isspace T c) b1 r1;
              (b3, r3) = pop_while (isspace T) b2 r2
          in pop_while (is_word_char T) b3 r3)"

section \<open>Scoring\<close>

text \<open>
  The backward scan \<open>i = end_index - 1; while i >= 0 and not chars[i].isspace(): i -= 1\<close>
  of \<open>award_word_if_correct\<close>. The argument is \<open>i + 1\<close> and the result is
  \<open>word_start = i + 1\<close> for the \<open>i\<close> at which the loop stops.
\<close>

fun find_word_start :: "ctype \<Rightarrow> pychar list \<Rightarrow> nat \<Rightarrow> nat" where
  "find_word_start T chars 0 = 0"
| "find_word_start T chars (Suc i) =
     (if isspace T (chars ! i) then Suc i else find_word_start T chars i)"

text \<open>
  \<open>award_word_if_correct(end_index)\<close>: the new state and the returned flag. The first
  read of the scan is \<open>chars[end_index - 1]\<close>, which raises \<open>IndexError\<close> when
  \<open>end_index\<close> lies beyond the stream.
\<close>

definition award_word_if_correct ::
  "ctype \<Rightarrow> pychar list \<Rightarrow> nat \<Rightarrow> session \<Rightarrow> pyerror + (bool \<times> session)" where
  "award_word_if_correct T chars end_index s =
     (if length chars < end_index then Inl IndexError
      else
        let word_start = find_word_start T chars end_index;
            word_end = end_index;
            word_len = int word_end - int word_start
        in
          if word_len \<le> 0 then Inr (False, s)
          else if length (entered_buffer s) < word_end then Inr (False, s)
          else if list_all (\<lambda>k. entered_buffer s ! k = chars ! k) [word_start..<word_end]
          then
            let base_points = BASE_POINT_FACTOR * real_of_int word_len;
                gained = base_points * multiplier s
            in Inr (True, s\<lparr>score := score s + gained,
                             streak := streak s + 1,
                             multiplier := min MULTIPLIER_MAX (multiplier s + MULTIPLIER_STEP)\<rparr>)
          else Inr (False, s))"

definition reset_streak_due_to_error :: "session \<Rightarrow> session" where
  "reset_streak_due_to_error s = s\<lparr>streak := 0, multiplier := MULTIPLIER_START\<rparr>"

section \<open>Keystroke operations\<close>

text \<open>
  The branches of the main loop of \<open>main_curses\<close>, one function each: smart delete
  (Ctrl+W), backspace, Enter, and a regular printable character.
\<close>

definition handle_smart_delete :: "ctype \<Rightarrow> session \<Rightarrow> session" where
  "handle_smart_delete T s =
     (let (buffer, removed) = smart_delete_prev_word_buffer T (entered_buffer s)
      in s\<lparr>entered_buffer := buffer, position := max 0 (position s - removed)\<rparr>)"

definition handle_backspace :: "session \<Rightarrow> session" where
  "handle_backspace s =
     (if entered_buffer s \<noteq> []
      then s\<lparr>entered_buffer := butlast (entered_buffer s),
             position := max 0 (position s - 1)\<rparr>
      else s)"

definition handle_newline :: "ctype \<Rightarrow> pychar list \<Rightarrow> session \<Rightarrow> pyerror + session" where
  "handle_newline T chars s =
     (let s1 = s\<lparr>entered_buffer := entered_buffer s @ [NEWLINE],
                 position := position s + 1\<rparr>
      in if position s1 - 1 < length chars \<and> isspace T (chars ! (position s1 - 1))
         then (case award_word_if_correct T chars (position s1 - 1) s1 of
                 Inl e \<Rightarrow> Inl e
               | Inr (awarded, s') \<Rightarrow> Inr s')
         else Inr s1)"

definition handle_character :: "ctype \<Rightarrow> pychar list \<Rightarrow> pychar \<Rightarrow> session \<Rightarrow> pyerror + session" where
  "handle_character T chars ch s =
     (let expected_char = (if position s < length chars then Some (chars ! position s) else None);
          s1 = s\<lparr>entered_buffer := entered_buffer s @ [ch],
                 position := position s + 1\<rparr>;
          s2 = (if expected_char = None \<or> Some ch \<noteq> expected_char
                then reset_streak_due_to_error s1 else s1)
      in if position s2 - 1 < length chars \<and> isspace T (chars ! (position s2 - 1))
         then (case award_word_if_correct T chars (position s2 - 1) s2 of
                 Inl e \<Rightarrow> Inl e
               | Inr (awarded, s') \<Rightarrow> Inr s')
         else Inr s2)"

text \<open>Sequences of the four operations, stopping at the first exception.\<close>

datatype operation =
    HandleCharacter pychar
  | HandleNewline
  | HandleBackspace
  | HandleSmartDelete

fun apply_operation :: "ctype \<Rightarrow> pychar list \<Rightarrow> operation \<Rightarrow> session \<Rightarrow> pyerror + session" where
  "apply_operation T chars (HandleCharacter ch) s = handle_character T chars ch s"
| "apply_operation T chars HandleNewline s = handle_newline T chars s"
| "apply_operation T chars HandleBackspace s = Inr (handle_backspace s)"
| "apply_operation T chars HandleSmartDelete s = Inr (handle_smart_delete T s)"

fun apply_operations :: "ctype \<Rightarrow> pychar list \<Rightarrow> operation list \<Rightarrow> session \<Rightarrow> pyerror + session" where
  "apply_operations T chars [] s = Inr s"
| "apply_operations T chars (x # xs) s =
     (case apply_operation T chars x s of
        Inl e \<Rightarrow> Inl e
      | Inr s' \<Rightarrow> apply_operations T chars xs s')"

section \<open>Snapshots and the file system\<close>

text \<open>
  The dictionary that Ctrl+S builds and \<open>save_progress\<close> completes with \<open>raw_entered\<close>.
  A key that the restore reads with \<open>dict.get(key, default)\<close> is an option: \<open>None\<close> is
  the absent key (for \<open>raw_entered\<close> also a value that is not a list).
\<close>

record snapshot =
  sv_filename :: "string option"
  sv_position :: "nat option"
  sv_elapsed_time :: "real option"
  sv_correct :: nat
  sv_incorrect :: nat
  sv_score :: "real option"
  sv_streak :: "int option"
  sv_multiplier :: "real option"
  sv_timestamp :: string
  sv_wrap_width :: "nat option"
  sv_raw_entered :: "pychar list option"

text \<open>
  The files the program reads and writes. A path names nothing, a directory, or a
  file (\<open>Directory\<close> is what \<open>os.path.isdir\<close> accepts); of a file only what
  \<open>open\<close> followed by \<open>json.load\<close> yields is kept: the
  decoded document (\<open>None\<close> for the JSON text \<open>null\<close>, which Python decodes to \<open>None\<close>),
  or the message of the exception raised for a file that cannot be read or does not
  hold JSON. \<open>os_message\<close> is the message of the \<open>OSError\<close> that \<open>open\<close> raises for a
  path that is missing or a directory. \<open>write_error\<close>, \<open>replace_error\<close> and
  \<open>move_error\<close> say which exception, if any, writing a document to a path,
  \<open>os.replace\<close> and \<open>shutil.move\<close> raise. A document that was written is read back
  unchanged. What a write or a move
  that raises leaves behind is not represented: the files are then taken as they
  were.
\<close>

datatype 'd node =
    Missing
  | Directory
  | Content "string + 'd option"

record 'd filesystem =
  entry :: "string \<Rightarrow> 'd node"
  os_message :: "string \<Rightarrow> string"
  write_error :: "string \<Rightarrow> 'd \<Rightarrow> string option"
  replace_error :: "string \<Rightarrow> string \<Rightarrow> string option"
  move_error :: "string \<Rightarrow> string \<Rightarrow> string option"

definition read_json :: "'d filesystem \<Rightarrow> string \<Rightarrow> string + 'd option" where
  "read_json fs path =
     (case entry fs path of
        Content c \<Rightarrow> c
      | Directory \<Rightarrow> Inl (os_message fs path)
      | Missing \<Rightarrow> Inl (os_message fs path))"

definition is_dir :: "'d filesystem \<Rightarrow> string \<Rightarrow> bool" where
  "is_dir fs path = (case entry fs path of Directory \<Rightarrow> True | Missing \<Rightarrow> False | Content c \<Rightarrow> False)"

text \<open>
  \<open>os.path.basename\<close> and \<open>os.path.join\<close> (of a relative second part) on POSIX
  paths, and \<open>shutil.move\<close>: a destination that is a directory receives the source
  under its own name, inside the directory.
\<close>

definition basename :: "string \<Rightarrow> string" where
  "basename p = rev (takeWhile (\<lambda>c. c \<noteq> CHR ''/'') (rev p))"

definition path_join :: "string \<Rightarrow> string \<Rightarrow> string" where
  "path_join a b = (if a = [] \<or> last a = CHR ''/'' then a @ b else a @ ''/'' @ b)"

definition shutil_move :: "'d filesystem \<Rightarrow> string \<Rightarrow> string \<Rightarrow> 'd filesystem \<times> string option" where
  "shutil_move fs src dst =
     (case move_error fs src dst of
        Some e \<Rightarrow> (fs, Some e)
      | None \<Rightarrow>
          let real_dst = (if is_dir fs dst then path_join dst (basename src) else dst)
          in (fs\<lparr>entry := ((entry fs)(real_dst := entry fs src))(src := Missing)\<rparr>, None))"

definition safe_write_json :: "'d filesystem \<Rightarrow> string \<Rightarrow> 'd \<Rightarrow> 'd filesystem \<times> string option" where
  "safe_write_json fs path data =
     (let tmp_path = path @ SAVE_TMP_SUFFIX in
      case write_error fs tmp_path data of
        Some e \<Rightarrow> (fs, Some e)
      | None \<Rightarrow>
          let fs1 = fs\<lparr>entry := (entry fs)(tmp_path := Content (Inr (Some data)))\<rparr>
          in (case replace_error fs1 tmp_path path of
                None \<Rightarrow>
                  (fs1\<lparr>entry := ((entry fs1)(path := entry fs1 tmp_path))
                                   (tmp_path := Missing)\<rparr>, None)
              | Some e1 \<Rightarrow> shutil_move fs1 tmp_path path))"

definition save_progress ::
  "snapshot filesystem \<Rightarrow> string \<Rightarrow> snapshot \<Rightarrow> pychar list
     \<Rightarrow> snapshot filesystem \<times> (bool \<times> string option)" where
  "save_progress fs save_path metadata buffer =
     (let data = metadata\<lparr>sv_raw_entered := Some buffer\<rparr>;
          (fs', raised) = safe_write_json fs save_path data
      in case raised of
           None \<Rightarrow> (fs', (True, None))
         | Some e \<Rightarrow> (fs', (False, Some e)))"

text \<open>
  \<open>load_progress_file\<close> returns what \<open>json.load\<close> decoded as it is, so a file that
  holds \<open>null\<close> gives \<open>(None, None)\<close>.
\<close>

definition load_progress_file :: "'d filesystem \<Rightarrow> string \<Rightarrow> 'd option \<times> string option" where
  "load_progress_file fs save_path =
     (case read_json fs save_path of
        Inr data \<Rightarrow> (data, None)
      | Inl e \<Rightarrow> (None, Some e))"

text \<open>
  The caller in \<open>main\<close>: \<open>data, err = load_progress_file(p)\<close>, then
  \<open>if data: loaded_state = data\<close>, otherwise the failure is printed and \<open>loaded_state\<close>
  stays \<open>None\<close>. \<open>truthy\<close> is Python's truth value of the decoded document.
\<close>

definition resume_choice :: "('d \<Rightarrow> bool) \<Rightarrow> 'd option \<times> string option \<Rightarrow> 'd option" where
  "resume_choice truthy loaded =
     (case fst loaded of
        Some data \<Rightarrow> (if truthy data then Some data else None)
      | None \<Rightarrow> None)"

text \<open>
  JSON documents as \<open>json.load\<close> can return them (a file that holds just \<open>null\<close> is
  the document \<open>None\<close> of the file system; \<open>JNull\<close> is a \<open>null\<close> inside a document), and
  the shape that section 6 of the specification gives a snapshot file: an object with
  the listed fields and types, \<open>raw_entered\<close> being optional.
\<close>

datatype json =
    JNull
  | JBool bool
  | JInt int
  | JFloat real
  | JStr "pychar list"
  | JArr "json list"
  | JObj "(string \<times> json) list"

fun is_int :: "json \<Rightarrow> bool" where
  "is_int (JInt n) = True"
| "is_int j = False"

fun is_number :: "json \<Rightarrow> bool" where
  "is_number (JInt n) = True"
| "is_number (JFloat r) = True"
| "is_number j = False"

fun is_string :: "json \<Rightarrow> bool" where
  "is_string (JStr s) = True"
| "is_string j = False"

fun is_string_or_null :: "json \<Rightarrow> bool" where
  "is_string_or_null (JStr s) = True"
| "is_string_or_null JNull = True"
| "is_string_or_null j = False"

fun is_single_char :: "json \<Rightarrow> bool" where
  "is_single_char (JStr s) = (length s = 1)"
| "is_single_char j = False"

fun is_char_array :: "json \<Rightarrow> bool" where
  "is_char_array (JArr xs) = list_all is_single_char xs"
| "is_char_array j = False"

definition has_field :: "(string \<times> json) list \<Rightarrow> string \<Rightarrow> (json \<Rightarrow> bool) \<Rightarrow> bool" where
  "has_field kvs name ok = (case map_of kvs name of Some v \<Rightarrow> ok v | None \<Rightarrow> False)"

definition optional_field :: "(string \<times> json) list \<Rightarrow> string \<Rightarrow> (json \<Rightarrow> bool) \<Rightarrow> bool" where
  "optional_field kvs name ok = (case map_of kvs name of Some v \<Rightarrow> ok v | None \<Rightarrow> True)"

fun spec_snapshot_shape :: "json \<Rightarrow> bool" where
  "spec_snapshot_shape (JObj kvs) =
     (has_field kvs ''filename'' is_string_or_null \<and>
      has_field kvs ''position'' is_int \<and>
      has_field kvs ''elapsed_time'' is_number \<and>
      has_field kvs ''correct'' is_int \<and>
      has_field kvs ''incorrect'' is_int \<and>
      has_field kvs ''score'' is_number \<and>
      has_field kvs ''streak'' is_int \<and>
      has_field kvs ''multiplier'' is_number \<and>
      has_field kvs ''timestamp'' is_string \<and>
      has_field kvs ''wrap_width'' is_int \<and>
      optional_field kvs ''raw_entered'' is_char_array)"
| "spec_snapshot_shape j = False"

text \<open>
  Python's truth value of a decoded document, and line 859 of \<open>main\<close>, the first use
  of a loaded state: \<open>raw_entered = loaded_state.get('raw_entered', None)\<close>. Only a
  dictionary has \<open>get\<close>; on any other value the attribute lookup raises
  \<open>AttributeError\<close>, and the line stands outside every \<open>try\<close>. The result \<open>None\<close> is
  Python's \<open>None\<close>, for an absent key and for a \<open>null\<close> value.
\<close>

fun json_truthy :: "json \<Rightarrow> bool" where
  "json_truthy JNull = False"
| "json_truthy (JBool b) = b"
| "json_truthy (JInt n) = (n \<noteq> 0)"
| "json_truthy (JFloat r) = (r \<noteq> 0)"
| "json_truthy (JStr s) = (s \<noteq> [])"
| "json_truthy (JArr xs) = (xs \<noteq> [])"
| "json_truthy (JObj kvs) = (kvs \<noteq> [])"

fun loaded_raw_entered :: "json \<Rightarrow> pyerror + json option" where
  "loaded_raw_entered (JObj kvs) =
     (case map_of kvs ''raw_entered'' of
        None \<Rightarrow> Inr None
      | Some JNull \<Rightarrow> Inr None
      | Some v \<Rightarrow> Inr (Some v))"
| "loaded_raw_entered j = Inl AttributeError"

section \<open>The session: start, main loop, completion\<close>

record preprocess_result =
  pr_display_lines :: "pychar list list"
  pr_chars :: "pychar list"
  pr_idx_to_pos :: "(nat \<times> nat) list"
  pr_total_chars :: nat
  pr_wrap_width :: nat
  pr_source_filename :: "string option"
  pr_loaded_state :: "snapshot option"

text \<open>
  The start of \<open>main_curses\<close>. \<open>global_buffer\<close> is the module-level \<open>entered_buffer\<close> as
  the call finds it: it is cleared and refilled only when a loaded state is present.
  \<open>now\<close> is the reading of \<open>time.time()\<close>.
\<close>

definition main_curses_init :: "preprocess_result \<Rightarrow> real \<Rightarrow> pychar list \<Rightarrow> session" where
  "main_curses_init pr now global_buffer =
     (case pr_loaded_state pr of
        None \<Rightarrow>
          \<lparr>position = 0, entered_buffer = global_buffer, score = 0, streak = 0,
           multiplier = MULTIPLIER_START, start_time = None\<rparr>
      | Some loaded_state \<Rightarrow>
          let position0 = min (case sv_position loaded_state of Some p \<Rightarrow> p | None \<Rightarrow> 0)
                             (pr_total_chars pr);
              raw = sv_raw_entered loaded_state;
              buffer = (case raw of
                          Some xs \<Rightarrow> xs
                        | None \<Rightarrow> take (min position0 (length (pr_chars pr))) (pr_chars pr));
              saved_elapsed = (case sv_elapsed_time loaded_state of Some t \<Rightarrow> t | None \<Rightarrow> 0)
          in \<lparr>position = position0, entered_buffer = buffer,
              score = (case sv_score loaded_state of Some x \<Rightarrow> x | None \<Rightarrow> 0),
              streak = (case sv_streak loaded_state of Some n \<Rightarrow> n | None \<Rightarrow> 0),
              multiplier = (case sv_multiplier loaded_state of Some m \<Rightarrow> m
                            | None \<Rightarrow> MULTIPLIER_START),
              start_time = Some (now - saved_elapsed)\<rparr>)"

definition compute_stats :: "pychar list \<Rightarrow> pychar list \<Rightarrow> nat \<times> nat \<times> nat" where
  "compute_stats chars buffer =
     (let typed = length buffer;
          correct = length (filter (\<lambda>(i, e). i < length chars \<and> e = chars ! i)
                              (enumerate 0 buffer));
          incorrect = typed - correct
      in (typed, correct, incorrect))"

definition is_complete :: "preprocess_result \<Rightarrow> session \<Rightarrow> bool" where
  "is_complete pr s = (pr_total_chars pr \<le> position s)"

text \<open>
  One result of \<open>stdscr.get_wch()\<close>: a one-character string or the integer code of a
  special key. A poll of the loop carries the key, if any, and the clock readings the
  iteration takes (\<open>time.time()\<close> and the formatted local time).
\<close>

datatype wch = Str pychar | KeyCode nat

definition KEY_BACKSPACE :: nat where
  "KEY_BACKSPACE = 263"

definition KEY_EXIT :: nat where
  "KEY_EXIT = 361"

record poll =
  poll_key :: "wch option"
  poll_clock :: real
  poll_stamp :: string

datatype control = Continue | Break

definition completion_check ::
  "preprocess_result \<Rightarrow> session \<Rightarrow> snapshot filesystem
     \<Rightarrow> pyerror + (control \<times> session \<times> snapshot filesystem)" where
  "completion_check pr s fs = (if is_complete pr s then Inr (Break, s, fs) else Inr (Continue, s, fs))"

text \<open>
  One iteration of \<open>while True\<close> in \<open>main_curses\<close>. The branches for Ctrl+S, Ctrl+W,
  Backspace and Enter end in \<open>continue\<close> and so skip the completion check of that
  iteration. \<open>save_to\<close> is the destination Ctrl+S computes from the save path and the
  source file name. The elapsed time saved is 0 when \<open>start_time\<close> is \<open>None\<close> or 0.0,
  the two values Python takes as false.
\<close>

definition loop_iter ::
  "ctype \<Rightarrow> preprocess_result \<Rightarrow> string \<Rightarrow> poll \<Rightarrow> session \<times> snapshot filesystem
     \<Rightarrow> pyerror + (control \<times> session \<times> snapshot filesystem)" where
  "loop_iter T pr save_to p st =
     (let (s0, fs) = st in
      (case poll_key p of
        None \<Rightarrow> completion_check pr s0 fs
      | Some ch \<Rightarrow>
          let s = (if start_time s0 = None then s0\<lparr>start_time := Some (poll_clock p)\<rparr> else s0)
          in (case ch of
               Str c \<Rightarrow>
                 if c = 27 then Inr (Break, s, fs)
                 else if c = 19 then
                   (let (typed_now, correct_now, incorrect_now) =
                          compute_stats (pr_chars pr) (entered_buffer s);
                        elapsed_now = (case start_time s of
                                         Some t \<Rightarrow> if t \<noteq> 0 then poll_clock p - t else 0
                                       | None \<Rightarrow> 0);
                        metadata = \<lparr>sv_filename = pr_source_filename pr,
                                    sv_position = Some (position s),
                                    sv_elapsed_time = Some elapsed_now,
                                    sv_correct = correct_now,
                                    sv_incorrect = incorrect_now,
                                    sv_score = Some (score s),
                                    sv_streak = Some (streak s),
                                    sv_multiplier = Some (multiplier s),
                                    sv_timestamp = poll_stamp p,
                                    sv_wrap_width = Some (pr_wrap_width pr),
                                    sv_raw_entered = None\<rparr>;
                        (fs', ok_err) = save_progress fs save_to metadata (entered_buffer s)
                    in Inr (Continue, s, fs'))
                 else if c = 23 then Inr (Continue, handle_smart_delete T s, fs)
                 else if c = 8 \<or> c = 127 then Inr (Continue, handle_backspace s, fs)
                 else if c = 10 \<or> c = 13 then
                   (case handle_newline T (pr_chars pr) s of
                      Inl e \<Rightarrow> Inl e
                    | Inr s' \<Rightarrow> Inr (Continue, s', fs))
                 else
                   (case handle_character T (pr_chars pr) c s of
                      Inl e \<Rightarrow> Inl e
                    | Inr s' \<Rightarrow> completion_check pr s' fs)
             | KeyCode k \<Rightarrow>
                 if k = KEY_BACKSPACE then completion_check pr (handle_backspace s) fs
                 else if k = KEY_EXIT then Inr (Break, s, fs)
                 else completion_check pr s fs)))"

text \<open>
  The loop over the polls of a run. It ends at the first \<open>break\<close>; a run whose polls
  are used up is observed in the state it has reached.
\<close>

fun main_loop ::
  "ctype \<Rightarrow> preprocess_result \<Rightarrow> string \<Rightarrow> poll list \<Rightarrow> session \<times> snapshot filesystem
     \<Rightarrow> pyerror + (session \<times> snapshot filesystem)" where
  "main_loop T pr save_to [] st = Inr st"
| "main_loop T pr save_to (p # ps) st =
     (case loop_iter T pr save_to p st of
        Inl e \<Rightarrow> Inl e
      | Inr (Break, st') \<Rightarrow> Inr st'
      | Inr (Continue, st') \<Rightarrow> main_loop T pr save_to ps st')"

section \<open>Preprocessing: wrapping and the character stream\<close>

text \<open>
  \<open>preprocess_text\<close> wraps each paragraph with \<open>textwrap.wrap(p, width=width,
  replace_whitespace=False, drop_whitespace=False)\<close>. \<open>textwrap\<close> belongs to the Python
  standard library, not to the program; it is modelled here after the library's
  \<open>TextWrapper\<close> with the options of that call and the defaults of all others
  (\<open>expand_tabs=True\<close>, \<open>tabsize=8\<close>, \<open>break_long_words=True\<close>,
  \<open>break_on_hyphens=True\<close>, no indents, no \<open>max_lines\<close>).

  \<open>expandtabs\<close> is \<open>str.expandtabs\<close>: a tab becomes the spaces that reach the next
  multiple of the tab size, the column counting from the last line break.
\<close>

fun expandtabs_from :: "nat \<Rightarrow> nat \<Rightarrow> pychar list \<Rightarrow> pychar list" where
  "expandtabs_from tabsize j [] = []"
| "expandtabs_from tabsize j (c # cs) =
     (if c = 9 then
        (let incr = tabsize - j mod tabsize
         in replicate incr 32 @ expandtabs_from tabsize (j + incr) cs)
      else c # expandtabs_from tabsize (if c = 10 \<or> c = 13 then 0 else j + 1) cs)"

definition expandtabs :: "nat \<Rightarrow> pychar list \<Rightarrow> pychar list" where
  "expandtabs tabsize text = expandtabs_from tabsize 0 text"

text \<open>
  The library splits the text into chunks with the regular expression \<open>wordsep_re\<close>
  and drops the empty ones. The expression is taken as the parameter \<open>split\<close> of the
  wrapping functions. \<open>split_plain\<close> is what it computes on text without hyphens: the
  maximal runs of whitespace (the six characters of \<open>textwrap._whitespace\<close>) and of
  other characters.
\<close>

definition tw_whitespace :: "pychar \<Rightarrow> bool" where
  "tw_whitespace c = (c = 9 \<or> c = 10 \<or> c = 11 \<or> c = 12 \<or> c = 13 \<or> c = 32)"

fun split_plain :: "pychar list \<Rightarrow> pychar list list" where
  "split_plain [] = []"
| "split_plain (c # cs) =
     (case split_plain cs of
        [] \<Rightarrow> [[c]]
      | [] # ds \<Rightarrow> [c] # ds
      | (e # es) # ds \<Rightarrow>
          (if tw_whitespace c = tw_whitespace e then (c # e # es) # ds
           else [c] # (e # es) # ds))"

text \<open>
  The inner loop of \<open>_wrap_chunks\<close>: chunks are moved to the current line while they
  fit. The library keeps the chunks reversed and pops from the end; here the next
  chunk is the head of the list.
\<close>

fun fill_line ::
  "nat \<Rightarrow> pychar list list \<Rightarrow> pychar list list \<Rightarrow> nat
     \<Rightarrow> pychar list list \<times> pychar list list \<times> nat" where
  "fill_line width [] cur_line cur_len = (cur_line, [], cur_len)"
| "fill_line width (c # cs) cur_line cur_len =
     (if cur_len + length c \<le> width
      then fill_line width cs (cur_line @ [c]) (cur_len + length c)
      else (cur_line, c # cs, cur_len))"

text \<open>\<open>chunk.rfind('-', 0, stop)\<close>: the last index below \<open>stop\<close> that holds a hyphen, or -1.\<close>

definition rfind_hyphen :: "pychar list \<Rightarrow> nat \<Rightarrow> int" where
  "rfind_hyphen chunk stop =
     (case filter (\<lambda>i. chunk ! i = 45) (rev [0..<min stop (length chunk)]) of
        [] \<Rightarrow> - 1
      | i # rest \<Rightarrow> int i)"

text \<open>
  \<open>_handle_long_word\<close> with \<open>break_long_words\<close> and \<open>break_on_hyphens\<close> set: the first
  chunk does not fit on any line and is cut. It is called with \<open>cur_len \<le> width\<close>.
\<close>

definition handle_long_word ::
  "nat \<Rightarrow> pychar list list \<Rightarrow> pychar list list \<Rightarrow> nat
     \<Rightarrow> pychar list list \<times> pychar list list" where
  "handle_long_word width chunks cur_line cur_len =
     (case chunks of
        [] \<Rightarrow> (cur_line, chunks)
      | chunk # rest \<Rightarrow>
          let space_left = (if width < 1 then 1 else width - cur_len);
              hyphen = rfind_hyphen chunk space_left;
              end_index =
                (if space_left < length chunk \<and> 0 < hyphen
                    \<and> list_ex (\<lambda>c. c \<noteq> 45) (take (nat hyphen) chunk)
                 then nat hyphen + 1 else space_left)
          in (cur_line @ [take end_index chunk], drop end_index chunk # rest))"

definition chunks_size :: "pychar list list \<Rightarrow> nat" where
  "chunks_size chunks = sum_list (map (\<lambda>c. Suc (length c)) chunks)"

text \<open>
  One pass of the outer loop of \<open>_wrap_chunks\<close>: the chunks of the next line and the
  chunks that remain.
\<close>

definition next_line ::
  "nat \<Rightarrow> pychar list list \<Rightarrow> pychar list list \<times> pychar list list" where
  "next_line width chunks =
     (let (cur_line, rest, cur_len) = fill_line width chunks [] 0
      in if (case rest of [] \<Rightarrow> False | c # cs \<Rightarrow> width < length c)
         then handle_long_word width rest cur_line cur_len
         else (cur_line, rest))"

lemma fill_line_split:
  assumes "fill_line width chunks cur_line cur_len = (cur_line', rest, cur_len')"
  shows "\<exists>taken. chunks = taken @ rest \<and> cur_line' = cur_line @ taken
           \<and> (taken = [] \<longrightarrow> cur_len' = cur_len)"
  using assms
proof (induction chunks arbitrary: cur_line cur_len)
  case Nil
  then show ?case by simp
next
  case (Cons c cs)
  show ?case
  proof (cases "cur_len + length c \<le> width")
    case True
    then have "fill_line width cs (cur_line @ [c]) (cur_len + length c)
        = (cur_line', rest, cur_len')"
      using Cons.prems by simp
    from Cons.IH [OF this] obtain taken where
      "cs = taken @ rest" "cur_line' = (cur_line @ [c]) @ taken" by blast
    then have "c # cs = (c # taken) @ rest \<and> cur_line' = cur_line @ (c # taken)"
      by simp
    then show ?thesis by blast
  next
    case False
    then show ?thesis using Cons.prems by simp
  qed
qed

lemma fill_line_stuck:
  assumes "fill_line width chunks cur_line cur_len = (cur_line', c # rest, cur_len')"
  shows "width < cur_len' + length c"
  using assms
  by (induction chunks arbitrary: cur_line cur_len) (auto split: if_splits)

lemma chunks_size_append: "chunks_size (xs @ ys) = chunks_size xs + chunks_size ys"
  by (simp add: chunks_size_def)

lemma chunks_size_pos: "xs \<noteq> [] \<Longrightarrow> 0 < chunks_size xs"
  by (cases xs) (simp_all add: chunks_size_def)

lemma handle_long_word_concat:
  assumes "handle_long_word width chunks cur_line cur_len = (cur_line', rest)"
  shows "concat cur_line' @ concat rest = concat cur_line @ concat chunks
       \<and> chunks_size rest \<le> chunks_size chunks"
  using assms
  by (cases chunks) (auto simp: handle_long_word_def Let_def chunks_size_def)

lemma handle_long_word_progress:
  assumes "handle_long_word width (c # cs) cur_line 0 = (cur_line', rest)"
    and "width < length c"
  shows "chunks_size rest < chunks_size (c # cs)"
proof -
  have "\<exists>e. 0 < e \<and> rest = drop e c # cs"
    using assms(1) unfolding handle_long_word_def Let_def
    by (auto split: if_splits)
  then obtain e where "0 < e" "rest = drop e c # cs" by blast
  moreover have "length (drop e c) < length c"
    using \<open>0 < e\<close> assms(2) by simp
  ultimately show ?thesis by (simp add: chunks_size_def)
qed

lemma next_line_concat:
  assumes "next_line width chunks = (cur_line, rest)"
  shows "concat cur_line @ concat rest = concat chunks"
proof -
  obtain cl r n where f: "fill_line width chunks [] 0 = (cl, r, n)"
    by (metis prod_cases3)
  obtain taken where t: "chunks = taken @ r" "cl = [] @ taken"
    using fill_line_split [OF f] by blast
  show ?thesis
  proof (cases "case r of [] \<Rightarrow> False | c # cs \<Rightarrow> width < length c")
    case True
    then have "handle_long_word width r cl n = (cur_line, rest)"
      using assms f by (simp add: next_line_def)
    from handle_long_word_concat [OF this] show ?thesis using t by simp
  next
    case False
    then have "cur_line = cl" "rest = r"
      using assms f by (simp_all add: next_line_def)
    then show ?thesis using t by simp
  qed
qed

lemma next_line_decreases:
  assumes "next_line width chunks = (cur_line, rest)" and "chunks \<noteq> []"
  shows "chunks_size rest < chunks_size chunks"
proof -
  obtain cl r n where f: "fill_line width chunks [] 0 = (cl, r, n)"
    by (metis prod_cases3)
  obtain taken where t: "chunks = taken @ r" "cl = [] @ taken"
    and z: "taken = [] \<longrightarrow> n = 0"
    using fill_line_split [OF f] by blast
  show ?thesis
  proof (cases "taken = []")
    case True
    then obtain c cs where r: "r = c # cs" using t assms(2) by (cases r) auto
    have n: "n = 0" using z True by simp
    have long: "width < length c" using fill_line_stuck [of width chunks "[]" 0 cl c cs n] f r n
      by simp
    then have "handle_long_word width (c # cs) cl 0 = (cur_line, rest)"
      using assms(1) f r n by (simp add: next_line_def)
    from handle_long_word_progress [OF this long] show ?thesis using t True r by simp
  next
    case False
    then have less: "chunks_size r < chunks_size chunks"
      using t chunks_size_pos [of taken] by (simp add: chunks_size_append)
    show ?thesis
    proof (cases "case r of [] \<Rightarrow> False | c # cs \<Rightarrow> width < length c")
      case True
      then have "handle_long_word width r cl n = (cur_line, rest)"
        using assms(1) f by (simp add: next_line_def)
      from handle_long_word_concat [OF this] show ?thesis using less by simp
    next
      case False
      then have "rest = r" using assms(1) f by (simp add: next_line_def)
      then show ?thesis using less by simp
    qed
  qed
qed

function wrap_chunks ::
  "nat \<Rightarrow> pychar list list \<Rightarrow> pychar list list \<Rightarrow> pychar list list" where
  "wrap_chunks width chunks lines =
     (if chunks = [] then lines
      else
        (case next_line width chunks of
           (cur_line, rest) \<Rightarrow>
             wrap_chunks width rest
               (if cur_line \<noteq> [] then lines @ [concat cur_line] else lines)))"
  by pat_completeness auto
termination wrap_chunks
  by (relation "measure (\<lambda>(width, chunks, lines). chunks_size chunks)")
    (auto intro: next_line_decreases [OF sym])

declare wrap_chunks.simps [simp del]

definition textwrap_wrap ::
  "(pychar list \<Rightarrow> pychar list list) \<Rightarrow> nat \<Rightarrow> pychar list \<Rightarrow> pychar list list" where
  "textwrap_wrap split width text =
     wrap_chunks width (filter (\<lambda>c. c \<noteq> []) (split (expandtabs 8 text))) []"

text \<open>
  \<open>preprocess_text\<close>. \<open>text.split('\n')\<close> is \<open>split_on NEWLINE\<close>; \<open>wrap_paragraph\<close> is
  the body of the loop over the paragraphs, \<open>build_chars\<close> the loop that flattens the
  display lines, \<open>build_idx_to_pos\<close> the loop that maps the stream to the grid. The
  progress callback only reports and is left out.
\<close>

fun split_on :: "pychar \<Rightarrow> pychar list \<Rightarrow> pychar list list" where
  "split_on sep [] = [[]]"
| "split_on sep (c # cs) =
     (if c = sep then [] # split_on sep cs
      else (case split_on sep cs of
              [] \<Rightarrow> [[c]]
            | p # ps \<Rightarrow> (c # p) # ps))"

definition wrap_paragraph ::
  "(pychar list \<Rightarrow> pychar list list) \<Rightarrow> nat \<Rightarrow> pychar list \<Rightarrow> pychar list list" where
  "wrap_paragraph split width p =
     (if p = [] then [[]]
      else
        let wrapped = textwrap_wrap split width p
        in if wrapped = [] then [[]] else wrapped)"

fun build_chars :: "pychar list list \<Rightarrow> pychar list" where
  "build_chars [] = []"
| "build_chars [line] = line"
| "build_chars (line # line2 # others) = line @ [NEWLINE] @ build_chars (line2 # others)"

fun build_idx_to_pos :: "nat \<Rightarrow> nat \<Rightarrow> pychar list \<Rightarrow> (nat \<times> nat) list" where
  "build_idx_to_pos line_idx col_idx [] = []"
| "build_idx_to_pos line_idx col_idx (ch # cs) =
     (line_idx, col_idx)
       # (if ch = NEWLINE then build_idx_to_pos (line_idx + 1) 0 cs
          else build_idx_to_pos line_idx (col_idx + 1) cs)"

definition preprocess_text ::
  "(pychar list \<Rightarrow> pychar list list) \<Rightarrow> pychar list \<Rightarrow> int option \<Rightarrow> preprocess_result" where
  "preprocess_text split text width =
     (let width1 = (case width of
                      None \<Rightarrow> 80
                    | Some n \<Rightarrow> if n \<le> 0 then 80 else nat n);
          paragraphs = split_on NEWLINE text;
          display_lines = concat (map (wrap_paragraph split width1) paragraphs);
          chars = build_chars display_lines;
          idx_to_pos = build_idx_to_pos 0 0 chars
      in \<lparr>pr_display_lines = display_lines, pr_chars = chars, pr_idx_to_pos = idx_to_pos,
          pr_total_chars = length chars, pr_wrap_width = width1,
          pr_source_filename = None, pr_loaded_state = None\<rparr>)"

section \<open>Concrete sessions\<close>

text \<open>
  Inputs on which the program is run below: the preprocessing results of the texts
  \<open>a\<close>, \<open>ab\<close> and \<open>cat dog\<close> at width 80, a disk that holds no file and on which every write
  succeeds, a poll that delivers one character, and a poll that finds no key.
\<close>

definition text_a :: preprocess_result where
  "text_a = \<lparr>pr_display_lines = [codes ''a''], pr_chars = codes ''a'',
             pr_idx_to_pos = [(0, 0)], pr_total_chars = 1, pr_wrap_width = 80,
             pr_source_filename = None, pr_loaded_state = None\<rparr>"

definition text_ab :: preprocess_result where
  "text_ab = \<lparr>pr_display_lines = [codes ''ab''], pr_chars = codes ''ab'',
              pr_idx_to_pos = [(0, 0), (0, 1)], pr_total_chars = 2, pr_wrap_width = 80,
              pr_source_filename = None, pr_loaded_state = None\<rparr>"

definition text_cat_dog :: preprocess_result where
  "text_cat_dog = \<lparr>pr_display_lines = [codes ''cat dog''], pr_chars = codes ''cat dog'',
             pr_idx_to_pos = [(0, 0), (0, 1), (0, 2), (0, 3), (0, 4), (0, 5), (0, 6)],
             pr_total_chars = 7, pr_wrap_width = 80,
             pr_source_filename = None, pr_loaded_state = None\<rparr>"

definition empty_disk :: "'d filesystem" where
  "empty_disk = \<lparr>entry = (\<lambda>path. Missing),
                 os_message = (\<lambda>path. ''[Errno 2] No such file or directory''),
                 write_error = (\<lambda>path data. None),
                 replace_error = (\<lambda>src dst. None),
                 move_error = (\<lambda>src dst. None)\<rparr>"

definition key_poll :: "pychar \<Rightarrow> poll" where
  "key_poll c = \<lparr>poll_key = Some (Str c), poll_clock = 0, poll_stamp = []\<rparr>"

definition idle_poll :: poll where
  "idle_poll = \<lparr>poll_key = None, poll_clock = 0, poll_stamp = []\<rparr>"

text \<open>
  A session on the text \<open>a\<close> in which Enter, Enter and Ctrl+S arrive in three
  consecutive polls, and the session that is then resumed on the same text from the
  file that Ctrl+S wrote.
\<close>

definition overshoot_session :: "pyerror + (session \<times> snapshot filesystem)" where
  "overshoot_session =
     main_loop ascii text_a ''typing_save.json'' [key_poll 10, key_poll 10, key_poll 19]
       (main_curses_init text_a 0 [], empty_disk)"

definition overshoot_resumed :: session where
  "overshoot_resumed =
     (case overshoot_session of
        Inr (s, fs) \<Rightarrow>
          main_curses_init
            (text_a\<lparr>pr_loaded_state :=
                resume_choice (\<lambda>data. True) (load_progress_file fs ''typing_save.json'')\<rparr>)
            0 (entered_buffer s)
      | Inl e \<Rightarrow> main_curses_init text_a 0 [])"

text \<open>
  Two rounds in one run of the program, without any save file: the text \<open>a\<close> is typed
  to its end, and the next round starts with the module-level buffer as the first
  round left it.
\<close>

definition first_round :: "pyerror + (session \<times> snapshot filesystem)" where
  "first_round =
     main_loop ascii text_a ''typing_save.json'' [key_poll 97]
       (main_curses_init text_a 0 [], empty_disk)"

definition second_round_start :: session where
  "second_round_start =
     (case first_round of
        Inr (s, fs) \<Rightarrow> main_curses_init text_a 0 (entered_buffer s)
      | Inl e \<Rightarrow> main_curses_init text_a 0 [])"

text \<open>
  A save file that holds the JSON array \<open>[1]\<close>, a save file that holds \<open>null\<close>, and a
  disk on which the save path \<open>saves\<close> is a directory, so that \<open>os.replace\<close> onto it
  raises.
\<close>

definition disk_with_array :: "json filesystem" where
  "disk_with_array =
     empty_disk\<lparr>entry := (\<lambda>path. if path = ''typing_save.json''
                                   then Content (Inr (Some (JArr [JInt 1]))) else Missing)\<rparr>"

definition disk_with_null :: "json filesystem" where
  "disk_with_null =
     empty_disk\<lparr>entry := (\<lambda>path. if path = ''typing_save.json''
                                   then Content (Inr None) else Missing)\<rparr>"

definition disk_with_directory :: "snapshot filesystem" where
  "disk_with_directory =
     empty_disk\<lparr>entry := (\<lambda>path. if path = ''saves'' then Directory else Missing),
                os_message := (\<lambda>path. if path = ''saves'' then ''[Errno 21] Is a directory''
                                       else ''[Errno 2] No such file or directory''),
                replace_error := (\<lambda>src dst. if dst = ''saves''
                                           then Some ''[Errno 21] Is a directory'' else None)\<rparr>"

section \<open>Properties of smart delete\<close>

lemma pop_while_eq:
  "pop_while P buffer removed =
     (rev (dropWhile P (rev buffer)), removed + length (takeWhile P (rev buffer)))"
proof (induction P buffer removed rule: pop_while.induct)
  case (1 P buffer removed)
  show ?case
  proof (cases "buffer \<noteq> [] \<and> P (last buffer)")
    case True
    then obtain xs x where b: "buffer = xs @ [x]" and px: "P x"
      by (metis append_butlast_last_id last_snoc)
    have "pop_while P buffer removed = pop_while P (butlast buffer) (removed + 1)"
      using True by (subst pop_while.simps) simp
    also have "\<dots> = (rev (dropWhile P (rev xs)), removed + 1 + length (takeWhile P (rev xs)))"
      using "1.IH" [OF True] b by simp
    finally show ?thesis using b px by simp
  next
    case False
    have "pop_while P buffer removed = (buffer, removed)"
      using False by (subst pop_while.simps) auto
    moreover have "dropWhile P (rev buffer) = rev buffer" "takeWhile P (rev buffer) = []"
      using False by (cases buffer rule: rev_cases; simp)+
    ultimately show ?thesis by simp
  qed
qed

lemma pop_while_take:
  assumes "pop_while P buffer removed = (b, r)"
  shows "removed \<le> r \<and> r - removed \<le> length buffer \<and> b = take (length buffer - (r - removed)) buffer"
proof -
  let ?t = "takeWhile P (rev buffer)" and ?d = "dropWhile P (rev buffer)"
  have b: "b = rev ?d" and r: "r = removed + length ?t"
    using assms by (simp_all add: pop_while_eq)
  have len: "length ?t + length ?d = length buffer"
    by (metis length_append length_rev takeWhile_dropWhile_id)
  have "rev buffer = ?t @ ?d" by simp
  then have "buffer = rev ?d @ rev ?t" by (metis rev_append rev_rev_ident)
  then have "take (length ?d) buffer = rev ?d"
    by (metis append_eq_conv_conj length_rev)
  moreover have "length buffer - (r - removed) = length ?d" using r len by simp
  ultimately show ?thesis using b r len by simp
qed

lemma pop_while_stage:
  assumes "pop_while P b r = (b', r')"
    and "r \<le> length b0" and "b = take (length b0 - r) b0"
  shows "r' \<le> length b0 \<and> b' = take (length b0 - r') b0"
proof -
  have t: "r \<le> r'" "r' - r \<le> length b" "b' = take (length b - (r' - r)) b"
    using pop_while_take [OF assms(1)] by blast+
  have l: "length b = length b0 - r" using assms(2,3) by simp
  have r': "r' \<le> length b0" using t(1,2) l assms(2) by linarith
  have m: "min (length b - (r' - r)) (length b0 - r) = length b0 - r'"
    using t(1,2) l assms(2) by linarith
  have "b' = take (length b - (r' - r)) (take (length b0 - r) b0)"
    using t(3) assms(3) by blast
  also have "\<dots> = take (min (length b - (r' - r)) (length b0 - r)) b0"
    by (simp only: take_take)
  finally show ?thesis using r' m by simp
qed

lemma smart_delete_take:
  assumes "smart_delete_prev_word_buffer T buffer = (b, n)"
  shows "n \<le> length buffer \<and> b = take (length buffer - n) buffer"
proof (cases "buffer = []")
  case True
  then show ?thesis using assms by (simp add: smart_delete_prev_word_buffer_def)
next
  case False
  obtain b1 r1 where p1: "pop_while (isspace T) buffer 0 = (b1, r1)" by fastforce
  have t1: "r1 \<le> length buffer \<and> b1 = take (length buffer - r1) buffer"
    by (rule pop_while_stage [OF p1]) simp_all
  show ?thesis
  proof (cases "b1 = []")
    case True
    then show ?thesis using assms False p1 t1
      by (simp add: smart_delete_prev_word_buffer_def)
  next
    case b1: False
    show ?thesis
    proof (cases "is_word_char T (last b1)")
      case True
      then have p: "pop_while (is_word_char T) b1 r1 = (b, n)"
        using assms False p1 b1 by (simp add: smart_delete_prev_word_buffer_def)
      show ?thesis using pop_while_stage [OF p] t1 by blast
    next
      case w: False
      obtain b2 r2 where p2:
        "pop_while (\<lambda>c. \<not> is_word_char T c \<and> \<not> isspace T c) b1 r1 = (b2, r2)" by fastforce
      obtain b3 r3 where p3: "pop_while (isspace T) b2 r2 = (b3, r3)" by fastforce
      have p4: "pop_while (is_word_char T) b3 r3 = (b, n)"
        using assms False p1 b1 w p2 p3 by (simp add: smart_delete_prev_word_buffer_def)
      have t2: "r2 \<le> length buffer \<and> b2 = take (length buffer - r2) buffer"
        using pop_while_stage [OF p2] t1 by blast
      have t3: "r3 \<le> length buffer \<and> b3 = take (length buffer - r3) buffer"
        using pop_while_stage [OF p3] t2 by blast
      show ?thesis using pop_while_stage [OF p4] t3 by blast
    qed
  qed
qed

section \<open>Properties of the scoring engine\<close>

lemma find_word_start_le: "find_word_start T chars n \<le> n"
  by (induction n) auto

lemma find_word_start_unique:
  assumes "ws \<le> n"
    and "\<forall>k. ws \<le> k \<and> k < n \<longrightarrow> \<not> isspace T (chars ! k)"
    and "ws = 0 \<or> isspace T (chars ! (ws - 1))"
  shows "find_word_start T chars n = ws"
  using assms
proof (induction n)
  case 0
  then show ?case by simp
next
  case (Suc n)
  show ?case
  proof (cases "isspace T (chars ! n)")
    case True
    then have "ws = Suc n" using Suc.prems(1,2) by (metis le_SucE lessI)
    then show ?thesis using True by simp
  next
    case False
    then have "ws \<noteq> Suc n" using Suc.prems(3) by auto
    then have "ws \<le> n" using Suc.prems(1) by simp
    moreover have "\<forall>k. ws \<le> k \<and> k < n \<longrightarrow> \<not> isspace T (chars ! k)"
      using Suc.prems(2) by simp
    ultimately have "find_word_start T chars n = ws"
      using Suc.IH Suc.prems(3) by blast
    then show ?thesis using False by simp
  qed
qed

lemma find_word_start_nonspace:
  "find_word_start T chars n \<le> k \<Longrightarrow> k < n \<Longrightarrow> \<not> isspace T (chars ! k)"
proof (induction n)
  case 0
  then show ?case by simp
next
  case (Suc n)
  then show ?case by (cases "k = n") (auto split: if_splits)
qed

lemma find_word_start_boundary:
  "find_word_start T chars n = 0 \<or> isspace T (chars ! (find_word_start T chars n - 1))"
  by (induction n) auto

lemma award_word_if_correct_cases:
  assumes "end_index \<le> length chars"
  shows "award_word_if_correct T chars end_index s =
     (if find_word_start T chars end_index < end_index
         \<and> end_index \<le> length (entered_buffer s)
         \<and> list_all (\<lambda>k. entered_buffer s ! k = chars ! k)
              [find_word_start T chars end_index..<end_index]
      then Inr (True,
             s\<lparr>score := score s
                  + BASE_POINT_FACTOR * real (end_index - find_word_start T chars end_index)
                    * multiplier s,
               streak := streak s + 1,
               multiplier := min MULTIPLIER_MAX (multiplier s + MULTIPLIER_STEP)\<rparr>)
      else Inr (False, s))"
proof -
  have le: "find_word_start T chars end_index \<le> end_index"
    by (rule find_word_start_le)
  then have "real_of_int (int end_index - int (find_word_start T chars end_index))
      = real (end_index - find_word_start T chars end_index)"
    by (simp add: of_nat_diff)
  then show ?thesis
    using assms le by (auto simp: award_word_if_correct_def Let_def)
qed

lemma award_word_if_correct_frame:
  assumes "award_word_if_correct T chars end_index s = Inr (awarded, s')"
  shows "position s' = position s \<and> entered_buffer s' = entered_buffer s
    \<and> start_time s' = start_time s"
  using assms by (auto simp: award_word_if_correct_def Let_def split: if_splits)

text \<open>
  Claim C3. \<open>evaluateWordBoundary(separatorIndex)\<close> is \<open>award_word_if_correct\<close>. Let
  \<open>[wordStart, separatorIndex)\<close> be the word range that the backward scan over
  non-whitespace expected characters finds: no expected character in the range is
  whitespace, and \<open>wordStart\<close> is 0 or follows a whitespace character. If the word is
  not empty, the typed buffer covers the range and every typed character in it equals
  the expected one, then the score grows by exactly
  \<open>BASE_POINT_FACTOR * wordLength * multiplier\<close>, the streak by 1, and the multiplier
  becomes \<open>min(MULTIPLIER_MAX, multiplier + MULTIPLIER_STEP)\<close>. In every other case
  the state, and so score, streak and multiplier, is unchanged. The separator index is
  an index of the stream, read with real-number arithmetic for the floats.
\<close>

theorem evaluate_word_boundary_award:
  assumes "separatorIndex \<le> length chars"
    and "wordStart \<le> separatorIndex"
    and "\<forall>k. wordStart \<le> k \<and> k < separatorIndex \<longrightarrow> \<not> isspace T (chars ! k)"
    and "wordStart = 0 \<or> isspace T (chars ! (wordStart - 1))"
  shows "award_word_if_correct T chars separatorIndex s =
     (if wordStart < separatorIndex
         \<and> separatorIndex \<le> length (entered_buffer s)
         \<and> (\<forall>k. wordStart \<le> k \<and> k < separatorIndex
                \<longrightarrow> entered_buffer s ! k = chars ! k)
      then Inr (True,
             s\<lparr>score := score s
                  + BASE_POINT_FACTOR * real (separatorIndex - wordStart) * multiplier s,
               streak := streak s + 1,
               multiplier := min MULTIPLIER_MAX (multiplier s + MULTIPLIER_STEP)\<rparr>)
      else Inr (False, s))"
proof -
  have ws: "find_word_start T chars separatorIndex = wordStart"
    using assms(2-4) by (rule find_word_start_unique)
  have "list_all (\<lambda>k. entered_buffer s ! k = chars ! k) [wordStart..<separatorIndex]
      = (\<forall>k. wordStart \<le> k \<and> k < separatorIndex \<longrightarrow> entered_buffer s ! k = chars ! k)"
    by (auto simp: list_all_iff)
  then show ?thesis
    unfolding award_word_if_correct_cases [OF assms(1)] ws by simp
qed

theorem evaluate_word_boundary_award_witness:
  "award_word_if_correct ascii (codes ''cat dog'') 3
     \<lparr>position = 4, entered_buffer = codes ''cat '', score = 0, streak = 0,
      multiplier = MULTIPLIER_START, start_time = None\<rparr>
   = Inr (True,
       \<lparr>position = 4, entered_buffer = codes ''cat '', score = 15, streak = 1,
        multiplier = 6 / 10, start_time = None\<rparr>)
   \<and> award_word_if_correct ascii (codes ''cat dog'') 3
     \<lparr>position = 4, entered_buffer = codes ''cot '', score = 0, streak = 0,
      multiplier = MULTIPLIER_START, start_time = None\<rparr>
   = Inr (False,
       \<lparr>position = 4, entered_buffer = codes ''cot '', score = 0, streak = 0,
        multiplier = MULTIPLIER_START, start_time = None\<rparr>)"
proof -
  have range: "\<And>P. (\<forall>k::nat. 0 \<le> k \<and> k < 3 \<longrightarrow> P k) = (P 0 \<and> P 1 \<and> P 2)"
    by (auto simp: less_Suc_eq numeral_3_eq_3 numeral_2_eq_2)
  have h1: "(3::nat) \<le> length (codes ''cat dog'')" by (simp add: codes_def)
  have h2: "(0::nat) \<le> 3" by simp
  have h3: "\<forall>k. 0 \<le> k \<and> k < 3 \<longrightarrow> \<not> isspace ascii (codes ''cat dog'' ! k)"
    unfolding range by (simp add: codes_def ascii_def ascii_isspace_def)
  have h4: "(0::nat) = 0 \<or> isspace ascii (codes ''cat dog'' ! (0 - 1))" by simp
  note inst = evaluate_word_boundary_award [OF h1 h2 h3 h4]
  have ok: "\<forall>k. 0 \<le> k \<and> k < 3 \<longrightarrow> codes ''cat '' ! k = codes ''cat dog'' ! k"
    unfolding range by (simp add: codes_def)
  have bad: "\<not> (\<forall>k. 0 \<le> k \<and> k < 3 \<longrightarrow> codes ''cot '' ! k = codes ''cat dog'' ! k)"
    unfolding range by (simp add: codes_def)
  have len: "length (codes ''cat '') = 4" "length (codes ''cot '') = 4"
    by (simp_all add: codes_def)
  show ?thesis
    unfolding inst
    using ok bad len
    by (simp add: BASE_POINT_FACTOR_def MULTIPLIER_START_def MULTIPLIER_STEP_def MULTIPLIER_MAX_def)
qed

section \<open>Properties of the keystroke operations\<close>

text \<open>
  The tail shared by the Enter branch and the printable-character branch, after the
  typed character has been appended at index \<open>p\<close>: no exception, and an award exactly
  when the expected character at \<open>p\<close> is whitespace and the word before it was typed
  correctly.
\<close>

lemma separator_step:
  assumes "position s1 = Suc p"
  shows "(if position s1 - 1 < length chars \<and> isspace T (chars ! (position s1 - 1))
          then (case award_word_if_correct T chars (position s1 - 1) s1 of
                  Inl e \<Rightarrow> Inl e
                | Inr (awarded, s') \<Rightarrow> Inr s')
          else Inr s1)
       = Inr (if p < length chars \<and> isspace T (chars ! p)
                \<and> find_word_start T chars p < p
                \<and> p \<le> length (entered_buffer s1)
                \<and> (\<forall>k. find_word_start T chars p \<le> k \<and> k < p
                       \<longrightarrow> entered_buffer s1 ! k = chars ! k)
              then s1\<lparr>score := score s1
                         + BASE_POINT_FACTOR * real (p - find_word_start T chars p)
                           * multiplier s1,
                       streak := streak s1 + 1,
                       multiplier := min MULTIPLIER_MAX (multiplier s1 + MULTIPLIER_STEP)\<rparr>
              else s1)"
proof (cases "p < length chars \<and> isspace T (chars ! p)")
  case True
  then have le: "p \<le> length chars" by simp
  have all: "list_all (\<lambda>k. entered_buffer s1 ! k = chars ! k) [find_word_start T chars p..<p]
      = (\<forall>k. find_word_start T chars p \<le> k \<and> k < p \<longrightarrow> entered_buffer s1 ! k = chars ! k)"
    by (auto simp: list_all_iff)
  show ?thesis
  proof -
    have p1: "position s1 - 1 = p" using assms by simp
    show ?thesis
      unfolding p1 award_word_if_correct_cases [OF le] all
      using True by auto
  qed
next
  case False
  then show ?thesis using assms by auto
qed

lemma handle_newline_eq:
  "handle_newline T chars s =
     Inr (let s1 = s\<lparr>entered_buffer := entered_buffer s @ [NEWLINE],
                     position := position s + 1\<rparr>;
              p = position s
          in if p < length chars \<and> isspace T (chars ! p)
                \<and> find_word_start T chars p < p
                \<and> p \<le> length (entered_buffer s1)
                \<and> (\<forall>k. find_word_start T chars p \<le> k \<and> k < p
                       \<longrightarrow> entered_buffer s1 ! k = chars ! k)
             then s1\<lparr>score := score s1
                        + BASE_POINT_FACTOR * real (p - find_word_start T chars p)
                          * multiplier s1,
                      streak := streak s1 + 1,
                      multiplier := min MULTIPLIER_MAX (multiplier s1 + MULTIPLIER_STEP)\<rparr>
             else s1)"
proof -
  define s1 where "s1 = s\<lparr>entered_buffer := entered_buffer s @ [NEWLINE],
                          position := position s + 1\<rparr>"
  have p: "position s1 = Suc (position s)" by (simp add: s1_def)
  show ?thesis
    unfolding handle_newline_def Let_def s1_def [symmetric]
    by (rule separator_step [OF p])
qed

lemma handle_character_eq:
  "handle_character T chars ch s =
     Inr (let s1 = s\<lparr>entered_buffer := entered_buffer s @ [ch],
                     position := position s + 1\<rparr>;
              s2 = (if length chars \<le> position s \<or> ch \<noteq> chars ! position s
                    then reset_streak_due_to_error s1 else s1);
              p = position s
          in if p < length chars \<and> isspace T (chars ! p)
                \<and> find_word_start T chars p < p
                \<and> p \<le> length (entered_buffer s2)
                \<and> (\<forall>k. find_word_start T chars p \<le> k \<and> k < p
                       \<longrightarrow> entered_buffer s2 ! k = chars ! k)
             then s2\<lparr>score := score s2
                        + BASE_POINT_FACTOR * real (p - find_word_start T chars p)
                          * multiplier s2,
                      streak := streak s2 + 1,
                      multiplier := min MULTIPLIER_MAX (multiplier s2 + MULTIPLIER_STEP)\<rparr>
             else s2)"
proof -
  define s1 where "s1 = s\<lparr>entered_buffer := entered_buffer s @ [ch],
                          position := position s + 1\<rparr>"
  define s2 where "s2 = (if length chars \<le> position s \<or> ch \<noteq> chars ! position s
                         then reset_streak_due_to_error s1 else s1)"
  have p: "position s2 = Suc (position s)"
    by (simp add: s2_def s1_def reset_streak_due_to_error_def)
  have e: "(if (if position s < length chars then Some (chars ! position s) else None) = None
               \<or> Some ch \<noteq> (if position s < length chars then Some (chars ! position s) else None)
            then reset_streak_due_to_error s1 else s1) = s2"
    by (auto simp: s2_def)
  show ?thesis
    unfolding handle_character_def Let_def s1_def [symmetric] e s2_def [symmetric]
    by (rule separator_step [OF p])
qed

text \<open>
  Claim C4, as stated, fails: a miss on an expected whitespace character resets the
  streak and the word-boundary evaluation of the same keystroke then awards the word
  before it. With the stream \<open>cat dog\<close> and \<open>cat\<close> typed, typing \<open>x\<close> where the space is
  expected leaves streak 1 and multiplier 0.6, not 0 and \<open>MULTIPLIER_START\<close>.
\<close>

theorem handle_character_miss_counterexample:
  "of_char CHR ''x'' \<noteq> codes ''cat dog'' ! 3
   \<and> handle_character ascii (codes ''cat dog'') (of_char CHR ''x'')
       \<lparr>position = 3, entered_buffer = codes ''cat'', score = 0, streak = 4,
        multiplier = 9 / 10, start_time = None\<rparr>
     = Inr \<lparr>position = 4, entered_buffer = codes ''catx'', score = 15, streak = 1,
            multiplier = 6 / 10, start_time = None\<rparr>"
proof -
  have range: "\<And>P. (\<forall>k::nat. k < 3 \<longrightarrow> P k) = (P 0 \<and> P 1 \<and> P 2)"
    by (auto simp: less_Suc_eq numeral_3_eq_3 numeral_2_eq_2)
  have ws: "find_word_start ascii (codes ''cat dog'') 3 = 0"
    by (simp add: numeral_3_eq_3 codes_def ascii_def ascii_isspace_def)
  have sp: "isspace ascii (codes ''cat dog'' ! 3)"
    by (simp add: codes_def ascii_def ascii_isspace_def)
  have len: "length (codes ''cat dog'') = 7" "length (codes ''catx'') = 4"
    by (simp_all add: codes_def)
  have typed: "\<forall>k<3. (codes ''cat'' @ [of_char CHR ''x'']) ! k = codes ''cat dog'' ! k"
    unfolding range by (simp add: codes_def)
  have miss: "of_char CHR ''x'' \<noteq> codes ''cat dog'' ! 3"
    by (simp add: codes_def)
  have app: "codes ''cat'' @ [120] = codes ''catx''"
    by (simp add: codes_def)
  show ?thesis
    unfolding handle_character_eq Let_def
    using sp typed miss
    by (simp add: ws len app reset_streak_due_to_error_def BASE_POINT_FACTOR_def
        MULTIPLIER_START_def MULTIPLIER_STEP_def MULTIPLIER_MAX_def)
qed

text \<open>
  Claim C4, amended. When \<open>handleCharacter(ch)\<close> is invoked with \<open>ch\<close> different from
  the expected character, or with the cursor at or past the end of the stream, the
  streak is reset first. If the expected character at that index is whitespace and the
  word before it was typed correctly, the word-boundary evaluation of the same
  keystroke then awards that word from the reset state: afterwards streak is 1,
  multiplier is \<open>min(MULTIPLIER_MAX, MULTIPLIER_START + MULTIPLIER_STEP)\<close> and the score
  has grown by \<open>BASE_POINT_FACTOR * wordLength * MULTIPLIER_START\<close>. In every other
  case streak is 0, multiplier is \<open>MULTIPLIER_START\<close> and the score is unchanged.
\<close>

theorem handle_character_miss:
  assumes "length chars \<le> position s \<or> ch \<noteq> chars ! position s"
  shows "\<exists>s'. handle_character T chars ch s = Inr s'
     \<and> (if position s < length chars \<and> isspace T (chars ! position s)
           \<and> find_word_start T chars (position s) < position s
           \<and> position s \<le> length (entered_buffer s) + 1
           \<and> (\<forall>k. find_word_start T chars (position s) \<le> k \<and> k < position s
                  \<longrightarrow> (entered_buffer s @ [ch]) ! k = chars ! k)
        then streak s' = 1
           \<and> multiplier s' = min MULTIPLIER_MAX (MULTIPLIER_START + MULTIPLIER_STEP)
           \<and> score s' = score s
               + BASE_POINT_FACTOR * real (position s - find_word_start T chars (position s))
                 * MULTIPLIER_START
        else streak s' = 0 \<and> multiplier s' = MULTIPLIER_START \<and> score s' = score s)"
  unfolding handle_character_eq Let_def
  using assms by (auto simp: reset_streak_due_to_error_def)

theorem handle_character_miss_witness:
  "\<exists>s'. handle_character ascii (codes ''cat dog'') (of_char CHR ''x'')
       \<lparr>position = 1, entered_buffer = codes ''c'', score = 15, streak = 4,
        multiplier = 9 / 10, start_time = None\<rparr> = Inr s'
     \<and> streak s' = 0 \<and> multiplier s' = MULTIPLIER_START \<and> score s' = 15"
proof -
  have miss: "length (codes ''cat dog'')
        \<le> position \<lparr>position = 1, entered_buffer = codes ''c'', score = 15, streak = 4,
             multiplier = 9 / 10, start_time = None\<rparr>
      \<or> of_char CHR ''x'' \<noteq> codes ''cat dog''
          ! position \<lparr>position = 1, entered_buffer = codes ''c'', score = 15, streak = 4,
             multiplier = 9 / 10, start_time = None\<rparr>"
    by (simp add: codes_def)
  show ?thesis
    using handle_character_miss [OF miss, of ascii]
    by (simp add: codes_def ascii_def ascii_isspace_def)
qed

text \<open>
  Claim C5. \<open>handleNewline\<close> appends a newline and advances the cursor without raising.
  It never resets the streak or the multiplier: if the expected character at the
  index just typed is whitespace and the word before it was typed correctly, the word
  is awarded (score grows, streak grows by 1, multiplier steps up); in every other
  case, also when the newline was typed where another character was expected, score,
  streak and multiplier are unchanged.
\<close>

theorem handle_newline_scoring:
  "\<exists>s'. handle_newline T chars s = Inr s'
     \<and> entered_buffer s' = entered_buffer s @ [NEWLINE]
     \<and> position s' = position s + 1
     \<and> (if position s < length chars \<and> isspace T (chars ! position s)
           \<and> find_word_start T chars (position s) < position s
           \<and> position s \<le> length (entered_buffer s) + 1
           \<and> (\<forall>k. find_word_start T chars (position s) \<le> k \<and> k < position s
                  \<longrightarrow> (entered_buffer s @ [NEWLINE]) ! k = chars ! k)
        then streak s' = streak s + 1
           \<and> multiplier s' = min MULTIPLIER_MAX (multiplier s + MULTIPLIER_STEP)
           \<and> score s' = score s
               + BASE_POINT_FACTOR * real (position s - find_word_start T chars (position s))
                 * multiplier s
        else streak s' = streak s \<and> multiplier s' = multiplier s \<and> score s' = score s)"
  unfolding handle_newline_eq Let_def
  by auto

theorem handle_newline_scoring_witness:
  "\<exists>s'. handle_newline ascii (codes ''cat dog'')
       \<lparr>position = 1, entered_buffer = codes ''c'', score = 15, streak = 4,
        multiplier = 9 / 10, start_time = None\<rparr> = Inr s'
     \<and> entered_buffer s' = codes ''c'' @ [NEWLINE] \<and> position s' = 2
     \<and> streak s' = 4 \<and> multiplier s' = 9 / 10 \<and> score s' = 15"
  using handle_newline_scoring [of ascii "codes ''cat dog''"
      "\<lparr>position = 1, entered_buffer = codes ''c'', score = 15, streak = 4,
        multiplier = 9 / 10, start_time = None\<rparr>"]
  by (simp add: codes_def ascii_def ascii_isspace_def numeral_2_eq_2)

lemma handle_character_buffer:
  assumes "handle_character T chars ch s = Inr s'"
  shows "entered_buffer s' = entered_buffer s @ [ch] \<and> position s' = position s + 1"
  using assms unfolding handle_character_eq Let_def
  by (auto simp: reset_streak_due_to_error_def split: if_splits)

lemma handle_newline_buffer:
  assumes "handle_newline T chars s = Inr s'"
  shows "entered_buffer s' = entered_buffer s @ [NEWLINE] \<and> position s' = position s + 1"
  using assms unfolding handle_newline_eq Let_def
  by (auto split: if_splits)

lemma handle_backspace_buffer:
  "entered_buffer (handle_backspace s) = butlast (entered_buffer s)
   \<and> position (handle_backspace s) = (if entered_buffer s = [] then position s else position s - 1)
   \<and> score (handle_backspace s) = score s
   \<and> streak (handle_backspace s) = streak s
   \<and> multiplier (handle_backspace s) = multiplier s"
  by (simp add: handle_backspace_def)

lemma handle_smart_delete_buffer:
  "\<exists>n \<le> length (entered_buffer s).
      entered_buffer (handle_smart_delete T s)
        = take (length (entered_buffer s) - n) (entered_buffer s)
    \<and> position (handle_smart_delete T s) = position s - n
    \<and> score (handle_smart_delete T s) = score s
    \<and> streak (handle_smart_delete T s) = streak s
    \<and> multiplier (handle_smart_delete T s) = multiplier s"
proof -
  obtain b n where sd: "smart_delete_prev_word_buffer T (entered_buffer s) = (b, n)"
    by fastforce
  from smart_delete_take [OF sd] show ?thesis
    by (auto simp: handle_smart_delete_def sd)
qed

lemma apply_operation_total: "\<exists>s'. apply_operation T chars x s = Inr s'"
  by (cases x) (simp_all add: handle_character_eq handle_newline_eq)

lemma apply_operations_total: "\<exists>s'. apply_operations T chars xs s = Inr s'"
proof (induction xs arbitrary: s)
  case Nil
  then show ?case by simp
next
  case (Cons x xs)
  obtain s1 where "apply_operation T chars x s = Inr s1"
    using apply_operation_total by blast
  then show ?case using Cons.IH [of s1] by simp
qed

text \<open>The four operations keep the typed buffer as long as the cursor position.\<close>

lemma apply_operation_keeps_length:
  assumes "length (entered_buffer s) = position s"
    and "apply_operation T chars x s = Inr s'"
  shows "length (entered_buffer s') = position s'"
proof (cases x)
  case (HandleCharacter ch)
  then show ?thesis using assms handle_character_buffer [of T chars ch s s'] by simp
next
  case HandleNewline
  then show ?thesis using assms handle_newline_buffer [of T chars s s'] by simp
next
  case HandleBackspace
  then show ?thesis using assms handle_backspace_buffer [of s] by auto
next
  case HandleSmartDelete
  obtain n where "n \<le> length (entered_buffer s)"
    "entered_buffer (handle_smart_delete T s)
        = take (length (entered_buffer s) - n) (entered_buffer s)"
    "position (handle_smart_delete T s) = position s - n"
    using handle_smart_delete_buffer [of s T] by blast
  then show ?thesis using assms HandleSmartDelete by auto
qed

lemma apply_operations_keep_length:
  assumes "length (entered_buffer s) = position s"
    and "apply_operations T chars xs s = Inr s'"
  shows "length (entered_buffer s') = position s'"
  using assms
proof (induction xs arbitrary: s)
  case Nil
  then show ?case by simp
next
  case (Cons x xs)
  obtain s1 where s1: "apply_operation T chars x s = Inr s1"
    using apply_operation_total by blast
  have "length (entered_buffer s1) = position s1"
    using apply_operation_keeps_length [OF Cons.prems(1) s1] .
  moreover have "apply_operations T chars xs s1 = Inr s'"
    using Cons.prems(2) s1 by simp
  ultimately show ?case by (rule Cons.IH)
qed

lemma apply_operation_position:
  assumes "apply_operation T chars x s = Inr s'"
  shows "position s' \<le> position s + 1"
proof (cases x)
  case (HandleCharacter ch)
  then show ?thesis using assms handle_character_buffer [of T chars ch s s'] by simp
next
  case HandleNewline
  then show ?thesis using assms handle_newline_buffer [of T chars s s'] by simp
next
  case HandleBackspace
  then show ?thesis using assms handle_backspace_buffer [of s] by auto
next
  case HandleSmartDelete
  then show ?thesis using assms handle_smart_delete_buffer [of s T] by auto
qed

lemma award_gain_nonneg: "0 \<le> m \<Longrightarrow> 0 \<le> BASE_POINT_FACTOR * real n * m"
  by (simp add: BASE_POINT_FACTOR_def)

lemma award_update_score:
  assumes "0 \<le> multiplier s2"
    and "s' = (if C then s2\<lparr>score := score s2 + BASE_POINT_FACTOR * real n * multiplier s2,
                           streak := streak s2 + 1,
                           multiplier := min MULTIPLIER_MAX (multiplier s2 + MULTIPLIER_STEP)\<rparr>
               else s2)"
  shows "score s2 \<le> score s' \<and> 0 \<le> multiplier s'"
  using award_gain_nonneg [OF assms(1), of n] assms
  by (auto simp: MULTIPLIER_STEP_def MULTIPLIER_MAX_def)

lemma handle_character_shape:
  "\<exists>C n s2. handle_character T chars ch s =
       Inr (if C then s2\<lparr>score := score s2 + BASE_POINT_FACTOR * real n * multiplier s2,
                         streak := streak s2 + 1,
                         multiplier := min MULTIPLIER_MAX (multiplier s2 + MULTIPLIER_STEP)\<rparr>
            else s2)
     \<and> score s2 = score s
     \<and> (multiplier s2 = multiplier s \<or> multiplier s2 = MULTIPLIER_START)"
proof -
  define s1 where "s1 = s\<lparr>entered_buffer := entered_buffer s @ [ch],
                          position := position s + 1\<rparr>"
  define s2 where "s2 = (if length chars \<le> position s \<or> ch \<noteq> chars ! position s
                         then reset_streak_due_to_error s1 else s1)"
  have "score s2 = score s"
    "multiplier s2 = multiplier s \<or> multiplier s2 = MULTIPLIER_START"
    by (auto simp: s1_def s2_def reset_streak_due_to_error_def)
  then show ?thesis
    unfolding handle_character_eq Let_def s1_def [symmetric] s2_def [symmetric]
    by blast
qed

lemma handle_newline_shape:
  "\<exists>C n s1. handle_newline T chars s =
       Inr (if C then s1\<lparr>score := score s1 + BASE_POINT_FACTOR * real n * multiplier s1,
                         streak := streak s1 + 1,
                         multiplier := min MULTIPLIER_MAX (multiplier s1 + MULTIPLIER_STEP)\<rparr>
            else s1)
     \<and> score s1 = score s \<and> multiplier s1 = multiplier s"
proof -
  define s1 where "s1 = s\<lparr>entered_buffer := entered_buffer s @ [NEWLINE],
                          position := position s + 1\<rparr>"
  have "score s1 = score s" "multiplier s1 = multiplier s"
    by (simp_all add: s1_def)
  then show ?thesis
    unfolding handle_newline_eq Let_def s1_def [symmetric]
    by blast
qed

lemma apply_operation_score:
  assumes "0 \<le> multiplier s"
    and "apply_operation T chars x s = Inr s'"
  shows "score s \<le> score s' \<and> 0 \<le> multiplier s'"
proof (cases x)
  case (HandleCharacter ch)
  obtain C n s2 where s2: "handle_character T chars ch s =
       Inr (if C then s2\<lparr>score := score s2 + BASE_POINT_FACTOR * real n * multiplier s2,
                         streak := streak s2 + 1,
                         multiplier := min MULTIPLIER_MAX (multiplier s2 + MULTIPLIER_STEP)\<rparr>
            else s2)"
    and sc: "score s2 = score s"
    and mu: "multiplier s2 = multiplier s \<or> multiplier s2 = MULTIPLIER_START"
    using handle_character_shape by blast
  have m2: "0 \<le> multiplier s2" using mu assms(1) by (auto simp: MULTIPLIER_START_def)
  have "s' = (if C then s2\<lparr>score := score s2 + BASE_POINT_FACTOR * real n * multiplier s2,
                         streak := streak s2 + 1,
                         multiplier := min MULTIPLIER_MAX (multiplier s2 + MULTIPLIER_STEP)\<rparr>
            else s2)"
    using s2 assms(2) HandleCharacter by simp
  from award_update_score [OF m2 this] sc show ?thesis by simp
next
  case HandleNewline
  obtain C n s1 where s1: "handle_newline T chars s =
       Inr (if C then s1\<lparr>score := score s1 + BASE_POINT_FACTOR * real n * multiplier s1,
                         streak := streak s1 + 1,
                         multiplier := min MULTIPLIER_MAX (multiplier s1 + MULTIPLIER_STEP)\<rparr>
            else s1)"
    and sc: "score s1 = score s"
    and mu: "multiplier s1 = multiplier s"
    using handle_newline_shape by blast
  have m1: "0 \<le> multiplier s1" using mu assms(1) by simp
  have "s' = (if C then s1\<lparr>score := score s1 + BASE_POINT_FACTOR * real n * multiplier s1,
                         streak := streak s1 + 1,
                         multiplier := min MULTIPLIER_MAX (multiplier s1 + MULTIPLIER_STEP)\<rparr>
            else s1)"
    using s1 assms(2) HandleNewline by simp
  from award_update_score [OF m1 this] sc show ?thesis by simp
next
  case HandleBackspace
  then show ?thesis using assms handle_backspace_buffer [of s] by auto
next
  case HandleSmartDelete
  then show ?thesis using assms handle_smart_delete_buffer [of s T] by auto
qed

lemma apply_operations_score:
  assumes "0 \<le> multiplier s"
    and "apply_operations T chars xs s = Inr s'"
  shows "score s \<le> score s' \<and> 0 \<le> multiplier s'"
  using assms
proof (induction xs arbitrary: s)
  case Nil
  then show ?case by simp
next
  case (Cons x xs)
  obtain s1 where s1: "apply_operation T chars x s = Inr s1"
    using apply_operation_total by blast
  have a: "score s \<le> score s1 \<and> 0 \<le> multiplier s1"
    using apply_operation_score [OF Cons.prems(1) s1] .
  moreover have "apply_operations T chars xs s1 = Inr s'"
    using Cons.prems(2) s1 by simp
  ultimately have "score s1 \<le> score s' \<and> 0 \<le> multiplier s'"
    using Cons.IH by blast
  then show ?case using a by linarith
qed

section \<open>Smart delete on a concrete buffer\<close>

text \<open>
  Claim C6, as stated, fails: on \<open>hello, world\<close> one smart delete does not leave
  \<open>hello,\<close>.
\<close>

theorem smart_delete_hello_world_counterexample:
  "fst (smart_delete_prev_word_buffer ascii (codes ''hello, world'')) \<noteq> codes ''hello,''"
  by (simp add: smart_delete_prev_word_buffer_def pop_while_eq codes_def ascii_def
      ascii_isspace_def ascii_isalnum_def is_word_char_def)

text \<open>
  Claim C6, amended. On the buffer \<open>hello, world\<close> the tail is a word character, so
  one smart delete pops no whitespace, pops the word \<open>world\<close> and stops: it leaves
  \<open>hello, \<close> with the separator space still in place and returns 5. For every buffer
  the returned count is the number of characters popped, and what is left is the
  buffer without its last \<open>count\<close> characters.
\<close>

theorem smart_delete_hello_world:
  "smart_delete_prev_word_buffer ascii (codes ''hello, world'') = (codes ''hello, '', 5)
   \<and> (\<forall>T buffer.
        snd (smart_delete_prev_word_buffer T buffer) \<le> length buffer
      \<and> fst (smart_delete_prev_word_buffer T buffer)
          = take (length buffer - snd (smart_delete_prev_word_buffer T buffer)) buffer)"
proof -
  have "smart_delete_prev_word_buffer ascii (codes ''hello, world'') = (codes ''hello, '', 5)"
    by (simp add: smart_delete_prev_word_buffer_def pop_while_eq codes_def ascii_def
        ascii_isspace_def ascii_isalnum_def is_word_char_def)
  moreover have "snd (smart_delete_prev_word_buffer T buffer) \<le> length buffer
      \<and> fst (smart_delete_prev_word_buffer T buffer)
          = take (length buffer - snd (smart_delete_prev_word_buffer T buffer)) buffer"
    for T buffer
    using smart_delete_take [of T buffer] by (cases "smart_delete_prev_word_buffer T buffer") simp
  ultimately show ?thesis by blast
qed

theorem smart_delete_hello_world_witness:
  "length (fst (smart_delete_prev_word_buffer ascii (codes ''hello, world''))) = 7
   \<and> snd (smart_delete_prev_word_buffer ascii (codes ''hello, world'')) = 5"
  using smart_delete_hello_world by (simp add: codes_def)

section \<open>Completion and score\<close>

text \<open>
  The completion test holds if and only if \<open>position >= total_chars\<close>. It becomes
  true exactly at \<open>position = total_chars\<close>: an operation that takes a session that is
  not complete to one that is leaves the cursor at \<open>total_chars\<close>, and a session that
  is complete as it starts, fresh or restored, starts at \<open>total_chars\<close>.
\<close>

lemma is_complete_first_reached:
  "is_complete pr s = (pr_total_chars pr \<le> position s)
   \<and> (\<not> is_complete pr s \<and> apply_operation T chars x s = Inr s' \<and> is_complete pr s'
        \<longrightarrow> position s' = pr_total_chars pr)
   \<and> (is_complete pr (main_curses_init pr now global_buffer)
        \<longrightarrow> position (main_curses_init pr now global_buffer) = pr_total_chars pr)"
proof -
  have "position s' = pr_total_chars pr"
    if "\<not> is_complete pr s" "apply_operation T chars x s = Inr s'" "is_complete pr s'"
    using that apply_operation_position [of T chars x s s']
    by (simp add: is_complete_def)
  moreover have "position (main_curses_init pr now global_buffer) \<le> pr_total_chars pr"
    by (simp add: main_curses_init_def Let_def split: option.splits)
  ultimately show ?thesis by (auto simp: is_complete_def)
qed

text \<open>
  The main loop tests completion only at the end of an iteration that was not left by
  \<open>continue\<close>. An iteration that finds no key ends the loop exactly when the session
  is complete; an iteration that handles Enter goes on to the next poll whatever the
  position is.
\<close>

lemma loop_iter_idle:
  assumes "poll_key p = None"
  shows "loop_iter T pr save_to p (s, fs)
       = Inr (if pr_total_chars pr \<le> position s then Break else Continue, s, fs)"
  using assms by (simp add: loop_iter_def completion_check_def is_complete_def)

lemma loop_iter_enter:
  assumes "poll_key p = Some (Str 10)"
  shows "\<exists>s'. loop_iter T pr save_to p (s, fs) = Inr (Continue, s', fs)
       \<and> position s' = position s + 1"
proof -
  define s0 where "s0 = (if start_time s = None then s\<lparr>start_time := Some (poll_clock p)\<rparr>
                         else s)"
  obtain s' where h: "handle_newline T (pr_chars pr) s0 = Inr s'"
    using apply_operation_total [of T "pr_chars pr" HandleNewline s0] by auto
  have "position s' = position s0 + 1"
    using handle_newline_buffer [OF h] by simp
  moreover have "position s0 = position s" by (simp add: s0_def)
  moreover have "loop_iter T pr save_to p (s, fs) = Inr (Continue, s', fs)"
    using assms h by (simp add: loop_iter_def s0_def [symmetric] Let_def)
  ultimately show ?thesis by simp
qed

text \<open>
  Claim C8: the session becomes complete exactly when the cursor position equals
  \<open>totalChars\<close>. The completion test itself is \<open>position >= total_chars\<close> and first
  holds at equality (\<open>is_complete_first_reached\<close>), but the loop does not apply it
  after Enter: on the text \<open>ab\<close>, with the keys \<open>a\<close>, Enter, Enter in consecutive polls,
  the iteration that brings the position to 2 of 2 continues, the next one brings it
  to 3, and the session ends at position 3 of 2.
\<close>

theorem session_ends_past_total:
  "pr_total_chars text_ab = 2
   \<and> is_complete text_ab
       \<lparr>position = 2, entered_buffer = [97, NEWLINE], score = 0, streak = 0,
        multiplier = MULTIPLIER_START, start_time = Some 0\<rparr>
   \<and> loop_iter ascii text_ab ''typing_save.json'' (key_poll 10)
       (\<lparr>position = 1, entered_buffer = [97], score = 0, streak = 0,
         multiplier = MULTIPLIER_START, start_time = Some 0\<rparr>, empty_disk)
     = Inr (Continue,
         \<lparr>position = 2, entered_buffer = [97, NEWLINE], score = 0, streak = 0,
          multiplier = MULTIPLIER_START, start_time = Some 0\<rparr>, empty_disk)
   \<and> main_loop ascii text_ab ''typing_save.json''
       [key_poll 97, key_poll 10, key_poll 10, idle_poll]
       (main_curses_init text_ab 0 [], empty_disk)
     = Inr (\<lparr>position = 3, entered_buffer = [97, NEWLINE, NEWLINE], score = 0, streak = 0,
             multiplier = MULTIPLIER_START, start_time = Some 0\<rparr>, empty_disk)"
  by (simp add: text_ab_def key_poll_def idle_poll_def main_curses_init_def loop_iter_def
      handle_newline_def handle_character_def completion_check_def is_complete_def
      codes_def ascii_def ascii_isspace_def Let_def)

text \<open>
  Claim C10. The score never decreases: from a session state whose multiplier is not
  negative (the data model keeps it between \<open>MULTIPLIER_START\<close> and
  \<open>MULTIPLIER_MAX\<close>), every sequence of the four operations runs without an exception
  and ends with a score at least as large. Backspace and smart delete leave the score
  as it is, so a word that was scored and then deleted is scored again when retyped.
\<close>

theorem score_never_decreases:
  assumes "0 \<le> multiplier s"
  shows "(\<exists>s'. apply_operations T chars xs s = Inr s' \<and> score s \<le> score s')
     \<and> score (handle_backspace s) = score s
     \<and> score (handle_smart_delete T s) = score s"
proof -
  obtain s' where s': "apply_operations T chars xs s = Inr s'"
    using apply_operations_total by blast
  then have "score s \<le> score s'"
    using apply_operations_score [OF assms] by blast
  then show ?thesis
    using s' handle_backspace_buffer [of s] handle_smart_delete_buffer [of s T] by auto
qed

theorem score_never_decreases_witness:
  "\<exists>s'. apply_operations ascii (codes ''cat dog'')
         [HandleCharacter 99, HandleCharacter 97, HandleCharacter 116, HandleCharacter 32,
          HandleBackspace, HandleCharacter 32]
         \<lparr>position = 0, entered_buffer = [], score = 0, streak = 0,
          multiplier = MULTIPLIER_START, start_time = None\<rparr> = Inr s'
      \<and> score \<lparr>position = 0, entered_buffer = [], score = 0, streak = 0,
          multiplier = MULTIPLIER_START, start_time = None\<rparr> \<le> score s'
      \<and> score s' = 33 \<and> streak s' = 2"
proof -
  let ?s = "\<lparr>position = 0, entered_buffer = [], score = 0, streak = 0,
          multiplier = MULTIPLIER_START, start_time = None\<rparr>"
  have run: "apply_operations ascii (codes ''cat dog'')
         [HandleCharacter 99, HandleCharacter 97, HandleCharacter 116, HandleCharacter 32,
          HandleBackspace, HandleCharacter 32] ?s
       = Inr \<lparr>position = 4, entered_buffer = codes ''cat '', score = 33, streak = 2,
              multiplier = 7 / 10, start_time = None\<rparr>"
    by (simp add: handle_character_def handle_backspace_def award_word_if_correct_def
        reset_streak_due_to_error_def Let_def codes_def ascii_def ascii_isspace_def
        numeral_3_eq_3 upt_rec
        BASE_POINT_FACTOR_def MULTIPLIER_START_def MULTIPLIER_STEP_def MULTIPLIER_MAX_def)
  have m: "0 \<le> multiplier ?s" by (simp add: MULTIPLIER_START_def)
  show ?thesis
    using score_never_decreases [OF m, of ascii "codes ''cat dog''"
        "[HandleCharacter 99, HandleCharacter 97, HandleCharacter 116, HandleCharacter 32,
          HandleBackspace, HandleCharacter 32]"] run
    by simp
qed

section \<open>Properties of saving and resuming\<close>






lemma overshoot_session_saved:
  "\<exists>fs. overshoot_session =
       Inr (\<lparr>position = 2, entered_buffer = [NEWLINE, NEWLINE], score = 0, streak = 0,
             multiplier = MULTIPLIER_START, start_time = Some 0\<rparr>, fs)
     \<and> load_progress_file fs ''typing_save.json'' =
         (Some \<lparr>sv_filename = None, sv_position = Some 2, sv_elapsed_time = Some 0,
                 sv_correct = 0, sv_incorrect = 2, sv_score = Some 0, sv_streak = Some 0,
                 sv_multiplier = Some MULTIPLIER_START, sv_timestamp = [],
                 sv_wrap_width = Some 80, sv_raw_entered = Some [NEWLINE, NEWLINE]\<rparr>, None)"
  by (simp add: overshoot_session_def text_a_def empty_disk_def key_poll_def
      main_curses_init_def loop_iter_def handle_newline_def completion_check_def
      is_complete_def compute_stats_def save_progress_def safe_write_json_def
      shutil_move_def is_dir_def read_json_def
      load_progress_file_def SAVE_TMP_SUFFIX_def NEWLINE_def
      codes_def ascii_def ascii_isspace_def Let_def)

lemma overshoot_resumed_eq:
  "overshoot_resumed =
     \<lparr>position = 1, entered_buffer = [NEWLINE, NEWLINE], score = 0, streak = 0,
      multiplier = MULTIPLIER_START, start_time = Some 0\<rparr>"
proof -
  obtain fs where a: "overshoot_session =
       Inr (\<lparr>position = 2, entered_buffer = [NEWLINE, NEWLINE], score = 0, streak = 0,
             multiplier = MULTIPLIER_START, start_time = Some 0\<rparr>, fs)"
    and b: "load_progress_file fs ''typing_save.json'' =
         (Some \<lparr>sv_filename = None, sv_position = Some 2, sv_elapsed_time = Some 0,
                 sv_correct = 0, sv_incorrect = 2, sv_score = Some 0, sv_streak = Some 0,
                 sv_multiplier = Some MULTIPLIER_START, sv_timestamp = [],
                 sv_wrap_width = Some 80, sv_raw_entered = Some [NEWLINE, NEWLINE]\<rparr>, None)"
    using overshoot_session_saved by blast
  show ?thesis
    unfolding overshoot_resumed_def a
    by (simp add: b resume_choice_def main_curses_init_def text_a_def Let_def)
qed


text \<open>
  Claim C1: the typed buffer is as long as the cursor position in every state reached
  from a fresh session or a restored snapshot. The four operations keep the two equal
  (\<open>apply_operations_keep_length\<close>), but the two ways a session starts do not
  establish it. The restore clamps the position to \<open>total_chars\<close> and takes
  \<open>raw_entered\<close> as it is: the session resumed from the file that the session
  \<open>overshoot_session\<close> saved starts with two typed characters at position 1. A fresh
  session leaves the module-level buffer as it finds it: the second round of one run
  starts at position 0 with the character typed in the first round still in the
  buffer.
\<close>

theorem buffer_longer_than_cursor:
  "length (entered_buffer overshoot_resumed) = 2 \<and> position overshoot_resumed = 1
   \<and> length (entered_buffer second_round_start) = 1 \<and> position second_round_start = 0"
proof -
  have sr: "second_round_start =
      \<lparr>position = 0, entered_buffer = codes ''a'', score = 0, streak = 0,
       multiplier = MULTIPLIER_START, start_time = None\<rparr>"
  proof -
    have fr: "first_round =
        Inr (\<lparr>position = 1, entered_buffer = codes ''a'', score = 0, streak = 0,
              multiplier = MULTIPLIER_START, start_time = Some 0\<rparr>, empty_disk)"
      by (simp add: first_round_def text_a_def key_poll_def main_curses_init_def
          loop_iter_def handle_character_def completion_check_def is_complete_def
          codes_def ascii_def ascii_isspace_def Let_def)
    show ?thesis
      unfolding second_round_start_def fr
      by (simp add: main_curses_init_def text_a_def)
  qed
  show ?thesis unfolding sr overshoot_resumed_eq by (simp add: codes_def)
qed




text \<open>
  The condition on the save path is needed. When the save path is a directory,
  \<open>os.replace\<close> raises, \<open>shutil.move\<close> puts the temporary file inside the directory,
  and \<open>save_progress\<close> reports success while the save path itself cannot be loaded.
\<close>

lemma save_into_directory:
  "snd (save_progress disk_with_directory ''saves'' metadata buffer) = (True, None)
   \<and> load_progress_file (fst (save_progress disk_with_directory ''saves'' metadata buffer))
        ''saves''
     = (None, Some ''[Errno 21] Is a directory'')
   \<and> load_progress_file (fst (save_progress disk_with_directory ''saves'' metadata buffer))
        ''saves/saves.tmp_save''
     = (Some (metadata\<lparr>sv_raw_entered := Some buffer\<rparr>), None)"
  by (simp add: save_progress_def safe_write_json_def shutil_move_def is_dir_def
      read_json_def load_progress_file_def disk_with_directory_def empty_disk_def
      basename_def path_join_def SAVE_TMP_SUFFIX_def Let_def)

text \<open>
  What \<open>load_progress_file\<close> and \<open>save_progress\<close> do on failure. Neither raises. When
  the file cannot be opened or its text is not JSON, \<open>load_progress_file\<close> returns
  \<open>(None, reason)\<close> with the message of the exception, the caller then has no loaded
  state, and the session starts fresh. Every document that decodes is returned as it
  is. \<open>save_progress\<close> returns \<open>(True, None)\<close> or \<open>(False, reason)\<close>, the latter with
  the message of the exception when the temporary file cannot be written.
\<close>

lemma load_and_save_report_failure:
  "(\<forall>reason. read_json fs path = Inl reason
       \<longrightarrow> load_progress_file fs path = (None, Some reason)
         \<and> resume_choice truthy (load_progress_file fs path) = None)
   \<and> (\<forall>data. read_json fs path = Inr data
       \<longrightarrow> load_progress_file fs path = (data, None))
   \<and> main_curses_init (pr\<lparr>pr_loaded_state := None\<rparr>) now global_buffer
       = \<lparr>position = 0, entered_buffer = global_buffer, score = 0, streak = 0,
          multiplier = MULTIPLIER_START, start_time = None\<rparr>
   \<and> (snd (save_progress sfs save_path metadata buffer) = (True, None)
       \<or> (\<exists>reason. snd (save_progress sfs save_path metadata buffer) = (False, Some reason)))
   \<and> (\<forall>reason. write_error sfs (save_path @ SAVE_TMP_SUFFIX)
                   (metadata\<lparr>sv_raw_entered := Some buffer\<rparr>) = Some reason
       \<longrightarrow> snd (save_progress sfs save_path metadata buffer) = (False, Some reason))"
proof -
  have load_fail: "load_progress_file fs path = (None, Some reason)
         \<and> resume_choice truthy (load_progress_file fs path) = None"
    if "read_json fs path = Inl reason" for reason
    using that by (simp add: load_progress_file_def resume_choice_def)
  have load_ok: "load_progress_file fs path = (data, None)"
    if "read_json fs path = Inr data" for data
    using that by (simp add: load_progress_file_def)
  have fresh: "main_curses_init (pr\<lparr>pr_loaded_state := None\<rparr>) now global_buffer
       = \<lparr>position = 0, entered_buffer = global_buffer, score = 0, streak = 0,
          multiplier = MULTIPLIER_START, start_time = None\<rparr>"
    by (simp add: main_curses_init_def)
  have save_total: "snd (save_progress sfs save_path metadata buffer) = (True, None)
       \<or> (\<exists>reason. snd (save_progress sfs save_path metadata buffer) = (False, Some reason))"
    by (simp add: save_progress_def safe_write_json_def shutil_move_def Let_def
        split: option.splits prod.splits)
  have save_fail: "snd (save_progress sfs save_path metadata buffer) = (False, Some reason)"
    if "write_error sfs (save_path @ SAVE_TMP_SUFFIX)
          (metadata\<lparr>sv_raw_entered := Some buffer\<rparr>) = Some reason" for reason
    using that by (simp add: save_progress_def safe_write_json_def Let_def)
  show ?thesis
    using load_fail load_ok fresh save_total save_fail by blast
qed

text \<open>
  Claim C9: loading a malformed or unreadable snapshot returns a failure with a reason
  and the caller falls back to a fresh session. For a file that cannot be read or is
  not JSON the code does so (\<open>load_and_save_report_failure\<close>). For a save file that
  holds the JSON array \<open>[1]\<close>, which has not the shape of a snapshot, it does not:
  \<open>load_progress_file\<close> reports success with the array as data, \<open>main\<close> takes the
  array as the loaded state, and the first use of it, \<open>loaded_state.get\<close>, raises
  \<open>AttributeError\<close> outside every \<open>try\<close>. For a save file that holds \<open>null\<close> the
  result is \<open>(None, None)\<close>: a failure that carries no reason.
\<close>

theorem malformed_save_file_accepted:
  "\<not> spec_snapshot_shape (JArr [JInt 1])
   \<and> load_progress_file disk_with_array ''typing_save.json'' = (Some (JArr [JInt 1]), None)
   \<and> resume_choice json_truthy (load_progress_file disk_with_array ''typing_save.json'')
       = Some (JArr [JInt 1])
   \<and> loaded_raw_entered (JArr [JInt 1]) = Inl AttributeError
   \<and> load_progress_file disk_with_null ''typing_save.json'' = (None, None)"
  by (simp add: load_progress_file_def read_json_def resume_choice_def
      disk_with_array_def disk_with_null_def empty_disk_def)

section \<open>Properties of the preprocessor\<close>

lemma wrap_chunks_concat:
  "concat (wrap_chunks width chunks lines) = concat lines @ concat chunks"
proof (induction width chunks lines rule: wrap_chunks.induct)
  case (1 width chunks lines)
  show ?case
  proof (cases "chunks = []")
    case True
    then show ?thesis by (subst wrap_chunks.simps) simp
  next
    case False
    obtain cur_line rest where n: "next_line width chunks = (cur_line, rest)"
      by fastforce
    have step: "wrap_chunks width chunks lines =
        wrap_chunks width rest (if cur_line \<noteq> [] then lines @ [concat cur_line] else lines)"
      using False n by (subst wrap_chunks.simps) simp
    have "concat (wrap_chunks width rest
              (if cur_line \<noteq> [] then lines @ [concat cur_line] else lines))
        = concat (if cur_line \<noteq> [] then lines @ [concat cur_line] else lines) @ concat rest"
      using "1.IH" [OF False n [symmetric]] .
    also have "\<dots> = concat lines @ concat cur_line @ concat rest"
      by simp
    also have "\<dots> = concat lines @ concat chunks"
      using next_line_concat [OF n] by simp
    finally show ?thesis using step by simp
  qed
qed

lemma concat_filter_nonempty: "concat (filter (\<lambda>c. c \<noteq> []) xs) = concat xs"
  by (induction xs) auto

lemma textwrap_wrap_concat:
  assumes "\<forall>t. concat (split t) = t"
  shows "concat (textwrap_wrap split width text) = expandtabs 8 text"
  using assms
  by (simp add: textwrap_wrap_def wrap_chunks_concat concat_filter_nonempty)

lemma expandtabs_from_no_tab: "9 \<notin> set xs \<Longrightarrow> expandtabs_from tabsize j xs = xs"
  by (induction xs arbitrary: j) auto

lemma wrap_paragraph_concat:
  assumes "\<forall>t. concat (split t) = t"
  shows "concat (wrap_paragraph split width p) = expandtabs 8 p"
proof (cases "p = []")
  case True
  then show ?thesis by (simp add: wrap_paragraph_def expandtabs_def)
next
  case False
  show ?thesis
  proof (cases "textwrap_wrap split width p = []")
    case True
    then have "expandtabs 8 p = []"
      using textwrap_wrap_concat [OF assms, of width p] by simp
    then show ?thesis using True False by (simp add: wrap_paragraph_def)
  next
    case nonempty: False
    then show ?thesis
      using False textwrap_wrap_concat [OF assms, of width p]
      by (simp add: wrap_paragraph_def Let_def)
  qed
qed

lemma split_plain_concat: "concat (split_plain xs) = xs"
  by (induction xs) (auto split: list.splits)

lemma preprocess_text_a: "preprocess_text split_plain (codes ''a'') (Some 80) = text_a"
  by code_simp

lemma preprocess_text_ab: "preprocess_text split_plain (codes ''ab'') (Some 80) = text_ab"
  by code_simp

lemma preprocess_text_cat_dog:
  "preprocess_text split_plain (codes ''cat dog'') (Some 80) = text_cat_dog"
  by code_simp

text \<open>
  Claim C2, as stated, fails for a paragraph that holds a tab: the wrapping expands
  the tab. For the paragraph of the three characters \<open>a\<close>, tab, \<open>b\<close> at width 80 the
  one display line is \<open>a\<close>, seven spaces, \<open>b\<close>.
\<close>

theorem lossless_wrap_counterexample:
  "pr_display_lines (preprocess_text split_plain [97, 9, 98] (Some 80))
     = [codes ''a       b'']
   \<and> concat (pr_display_lines (preprocess_text split_plain [97, 9, 98] (Some 80)))
     \<noteq> [97, 9, 98]"
  by code_simp

text \<open>
  Claim C2, amended. For every text and every positive wrap width, the display lines
  are the lines of the paragraphs in order, and concatenating the display lines of a
  paragraph reproduces the paragraph with each tab replaced by the spaces that reach
  the next multiple of 8 columns (\<open>str.expandtabs(8)\<close>); for a paragraph without a tab
  it reproduces the paragraph exactly. This holds for every chunk splitter that, like
  \<open>re.split\<close> with a capturing group, returns all of the text.
\<close>

theorem lossless_wrap:
  assumes "\<forall>t. concat (split t) = t" and "0 < width"
  shows "pr_display_lines (preprocess_text split txt (Some (int width)))
       = concat (map (wrap_paragraph split width) (split_on NEWLINE txt))
     \<and> (\<forall>p \<in> set (split_on NEWLINE txt).
          concat (wrap_paragraph split width p) = expandtabs 8 p
        \<and> (9 \<notin> set p \<longrightarrow> concat (wrap_paragraph split width p) = p))"
proof -
  have "pr_display_lines (preprocess_text split txt (Some (int width)))
       = concat (map (wrap_paragraph split width) (split_on NEWLINE txt))"
    using assms(2) by (simp add: preprocess_text_def Let_def)
  moreover have "concat (wrap_paragraph split width p) = expandtabs 8 p
        \<and> (9 \<notin> set p \<longrightarrow> concat (wrap_paragraph split width p) = p)" for p
    using wrap_paragraph_concat [OF assms(1), of width p] expandtabs_from_no_tab [of p 8 0]
    by (simp add: expandtabs_def)
  ultimately show ?thesis by blast
qed

theorem lossless_wrap_witness:
  "concat (pr_display_lines (preprocess_text split_plain (codes ''hello world foo'') (Some 5)))
     = codes ''hello world foo''"
proof -
  have s: "\<forall>t. concat (split_plain t) = t" by (simp add: split_plain_concat)
  have w: "(0::nat) < 5" by simp
  have p: "split_on NEWLINE (codes ''hello world foo'') = [codes ''hello world foo'']"
    by (simp add: codes_def NEWLINE_def)
  have n: "9 \<notin> set (codes ''hello world foo'')" by (simp add: codes_def)
  note inst = lossless_wrap [OF s w, of "codes ''hello world foo''", unfolded p]
  have d: "pr_display_lines (preprocess_text split_plain (codes ''hello world foo'') (Some 5))
      = wrap_paragraph split_plain 5 (codes ''hello world foo'')"
    using inst by simp
  have m: "codes ''hello world foo'' \<in> set [codes ''hello world foo'']" by simp
  have "9 \<notin> set (codes ''hello world foo'')
      \<longrightarrow> concat (wrap_paragraph split_plain 5 (codes ''hello world foo''))
          = codes ''hello world foo''"
    using inst m by blast
  then show ?thesis unfolding d using n by blast
qed

end
